theory Spec2Isabelle
  imports Complex_Main "HOL-Library.Sublist"
begin

section \<open>Python values\<close>

text \<open>
  A Python \<open>str\<close> is a sequence of Unicode code points; \<open>len\<close>, slicing, \<open>find\<close> and the
  regular expressions of the sources all count code points. A string is therefore a list
  of code points (natural numbers); \<open>S ''abc''\<close> writes an ASCII literal.
\<close>

type_synonym pystr = "nat list"

abbreviation (input) S :: "string \<Rightarrow> pystr" where
  "S s \<equiv> map of_char s"

definition NEWLINE :: nat where "NEWLINE = 10"
definition SPACE :: nat where "SPACE = 32"
definition DQUOTE :: nat where "DQUOTE = 34"
definition SQUOTE :: nat where "SQUOTE = 39"
definition BACKSLASH :: nat where "BACKSLASH = 92"
definition LBRACE :: nat where "LBRACE = 123"
definition RBRACE :: nat where "RBRACE = 125"
definition RBRACKET :: nat where "RBRACKET = 93"
definition COMMA :: nat where "COMMA = 44"
definition COLON :: nat where "COLON = 58"
definition BACKTICK :: nat where "BACKTICK = 96"

text \<open>
  The values \<open>json.loads\<close> produces, which are also the values a decision dict holds.
  Python's \<open>None\<close> is \<open>JNull\<close>. A dict is an association list in insertion order with
  distinct keys.
\<close>

datatype json =
    JNull
  | JBool bool
  | JInt int
  | JFloat real
  | JStr pystr
  | JArr "json list"
  | JObj "(pystr \<times> json) list"

type_synonym pydict = "(pystr \<times> json) list"

text \<open>Truth value testing (\<open>if x\<close>, \<open>x and y\<close>, \<open>x or y\<close>).\<close>

fun truthy :: "json \<Rightarrow> bool" where
  "truthy JNull = False"
| "truthy (JBool b) = b"
| "truthy (JInt i) = (i \<noteq> 0)"
| "truthy (JFloat r) = (r \<noteq> 0)"
| "truthy (JStr s) = (s \<noteq> [])"
| "truthy (JArr xs) = (xs \<noteq> [])"
| "truthy (JObj kvs) = (kvs \<noteq> [])"

text \<open>\<open>d.get(k, default)\<close>, \<open>d.setdefault(k, v)\<close>, \<open>d[k] = v\<close> and \<open>k in d\<close>.\<close>

definition dict_get :: "pydict \<Rightarrow> pystr \<Rightarrow> json \<Rightarrow> json" where
  "dict_get d k dflt = (case map_of d k of Some v \<Rightarrow> v | None \<Rightarrow> dflt)"

definition dict_has :: "pydict \<Rightarrow> pystr \<Rightarrow> bool" where
  "dict_has d k = (map_of d k \<noteq> None)"

definition setdefault :: "pystr \<Rightarrow> json \<Rightarrow> pydict \<Rightarrow> pydict" where
  "setdefault k v d = (if dict_has d k then d else d @ [(k, v)])"

fun dict_set :: "pystr \<Rightarrow> json \<Rightarrow> pydict \<Rightarrow> pydict" where
  "dict_set k v [] = [(k, v)]"
| "dict_set k v ((k', v') # d) = (if k' = k then (k, v) # d else (k', v') # dict_set k v d)"

section \<open>String primitives\<close>

text \<open>
  \<open>str.isspace\<close> on one code point; the same set is what \<open>\s\<close> matches in a \<open>str\<close>
  pattern and what \<open>str.strip()\<close> removes.
\<close>

definition is_space :: "nat \<Rightarrow> bool" where
  "is_space c \<longleftrightarrow>
     (9 \<le> c \<and> c \<le> 13) \<or> (28 \<le> c \<and> c \<le> 32) \<or> c = 133 \<or> c = 160 \<or> c = 5760
     \<or> (8192 \<le> c \<and> c \<le> 8202) \<or> c = 8232 \<or> c = 8233 \<or> c = 8239 \<or> c = 8287 \<or> c = 12288"

definition strip :: "pystr \<Rightarrow> pystr" where
  "strip s = rev (dropWhile is_space (rev (dropWhile is_space s)))"

text \<open>\<open>needle in hay\<close> for strings: a contiguous occurrence.\<close>

fun contains :: "pystr \<Rightarrow> pystr \<Rightarrow> bool" where
  "contains needle [] = (needle = [])"
| "contains needle (c # cs) = (prefix needle (c # cs) \<or> contains needle cs)"

text \<open>
  Slices \<open>s[:n]\<close> and \<open>s[n:]\<close> for a Python integer \<open>n\<close>: a negative bound counts from the
  end, and bounds beyond the string are clipped.
\<close>

definition slice_to :: "int \<Rightarrow> 'a list \<Rightarrow> 'a list" where
  "slice_to n xs = (if 0 \<le> n then take (nat n) xs else take (length xs - nat (- n)) xs)"

definition slice_from :: "int \<Rightarrow> 'a list \<Rightarrow> 'a list" where
  "slice_from n xs = (if 0 \<le> n then drop (nat n) xs else drop (length xs - nat (- n)) xs)"

text \<open>\<open>s.rfind(c)\<close> for a one-character needle: the highest index of \<open>c\<close>, or \<open>-1\<close>.\<close>

definition rfind :: "nat \<Rightarrow> pystr \<Rightarrow> int" where
  "rfind c s =
     (if c \<in> set s then int (length s) - 1 - int (length (takeWhile (\<lambda>x. x \<noteq> c) (rev s)))
      else - 1)"

section \<open>Message splitting (telegram\_handler.py)\<close>

text \<open>
  \<^verbatim>\<open>split_pos = text[:max_length].rfind("\n")
if split_pos == -1 or split_pos < max_length // 2:
    split_pos = text[:max_length].rfind(" ")
    if split_pos == -1 or split_pos < max_length // 2:
        split_pos = max_length\<close>
\<close>

definition choose_split_pos :: "int \<Rightarrow> pystr \<Rightarrow> int" where
  "choose_split_pos max_length text =
     (let split_pos = rfind NEWLINE (slice_to max_length text) in
      if split_pos = - 1 \<or> split_pos < max_length div 2 then
        (let split_pos = rfind SPACE (slice_to max_length text) in
         if split_pos = - 1 \<or> split_pos < max_length div 2 then max_length else split_pos)
      else split_pos)"

text \<open>
  The \<open>while text:\<close> loop. Nothing in the source bounds the number of iterations (with
  \<open>max_length = 1\<close> a text that starts with a space is never shortened), so the loop is a
  partial function: \<open>None\<close> is a run that does not return.
\<close>

partial_function (option) split_loop :: "int \<Rightarrow> pystr \<Rightarrow> pystr list \<Rightarrow> pystr list option" where
  "split_loop max_length text chunks =
     (if text = [] then Some chunks
      else if int (length text) \<le> max_length then Some (chunks @ [text])
      else
        split_loop max_length
          (dropWhile (\<lambda>c. c = NEWLINE) (slice_from (choose_split_pos max_length text) text))
          (chunks @ [slice_to (choose_split_pos max_length text) text]))"

declare split_loop.simps [code]

definition split_message :: "pystr \<Rightarrow> int \<Rightarrow> pystr list option" where
  "split_message text max_length =
     (if int (length text) \<le> max_length then Some [text]
      else split_loop max_length text [])"

text \<open>
  What the chunks of a text are: the text is the chunks in order, each followed by a
  (possibly empty) run of newline characters that the split dropped.
\<close>

definition rejoins :: "pystr list \<Rightarrow> pystr \<Rightarrow> bool" where
  "rejoins chunks text \<longleftrightarrow>
     (\<exists>seps. length seps = length chunks \<and> list_all (\<lambda>s. list_all (\<lambda>c. c = NEWLINE) s) seps
        \<and> text = concat (map2 (@) chunks seps))"

section \<open>Task classification (brain.py)\<close>

definition creative_signals :: "pystr list" where
  "creative_signals =
     [S ''write'', S ''story'', S ''poem'', S ''joke'', S ''creative'', S ''imagine'',
      S ''chat'', S ''talk'', S ''tell me'', S ''how are you'', S ''what do you think'',
      S ''opinion'', S ''suggest'', S ''recommend'', S ''idea'']"

definition precise_signals :: "pystr list" where
  "precise_signals =
     [S ''run'', S ''execute'', S ''install'', S ''create file'', S ''write file'',
      S ''open'', S ''click'', S ''type'', S ''command'', S ''code'', S ''script'',
      S ''fix'', S ''debug'', S ''error'', S ''delete'', S ''kill'', S ''process'',
      S ''download'', S ''build'', S ''deploy'', S ''configure'', S ''setup'']"

text \<open>
  \<open>Brain._classify_task\<close>. \<open>str.lower\<close> is the interpreter's (full Unicode lowercasing); it
  is the parameter \<open>lower\<close>.
\<close>

definition classify_task :: "(pystr \<Rightarrow> pystr) \<Rightarrow> pystr \<Rightarrow> pystr" where
  "classify_task lower message =
     (let message_lower = lower message in
      if list_ex (\<lambda>signal. contains signal message_lower) creative_signals then S ''creative''
      else if list_ex (\<lambda>signal. contains signal message_lower) precise_signals then S ''precise''
      else S ''balanced'')"

text \<open>A lowercasing that agrees with \<open>str.lower\<close> on ASCII text, to run examples with.\<close>

definition ascii_lower :: "pystr \<Rightarrow> pystr" where
  "ascii_lower = map (\<lambda>c. if 65 \<le> c \<and> c \<le> 90 then c + 32 else c)"

section \<open>JSON extraction (brain.py)\<close>

subsection \<open>The regular expressions\<close>

text \<open>
  The text before and after the first occurrence of a pattern string, if it occurs.
\<close>

fun split_on :: "pystr \<Rightarrow> pystr \<Rightarrow> (pystr \<times> pystr) option" where
  "split_on pat [] = (if pat = [] then Some ([], []) else None)"
| "split_on pat (c # cs) =
     (if prefix pat (c # cs) then Some ([], drop (length pat) (c # cs))
      else (case split_on pat cs of
              None \<Rightarrow> None
            | Some (before, after) \<Rightarrow> Some (c # before, after)))"

lemma split_on_Some: "split_on pat s = Some (a, b) \<Longrightarrow> s = a @ pat @ b"
proof (induction s arbitrary: a)
  case Nil
  then show ?case by (simp split: if_splits)
next
  case (Cons c cs)
  show ?case
  proof (cases "prefix pat (c # cs)")
    case True
    with Cons.prems show ?thesis by (auto simp: prefix_def)
  next
    case False
    with Cons.prems obtain a' where "split_on pat cs = Some (a', b)" "a = c # a'"
      by (auto split: option.splits)
    with Cons.IH show ?thesis by simp
  qed
qed

text \<open>
  \<^verbatim>\<open>re.sub(r"<think>.*?</think>", "", text, flags=re.DOTALL)\<close>: the leftmost opening tag
  that has a closing tag after it is removed together with everything up to the first such
  closing tag, and the substitution goes on behind it.
\<close>

function sub_think_blocks :: "pystr \<Rightarrow> pystr" where
  "sub_think_blocks text =
     (case split_on (S ''<think>'') text of
        None \<Rightarrow> text
      | Some (before, rest) \<Rightarrow>
          (case split_on (S ''</think>'') rest of
             None \<Rightarrow> text
           | Some (inside, after) \<Rightarrow> before @ sub_think_blocks after))"
  by pat_completeness auto
termination
proof (relation "measure length")
  show "wf (measure length)" by simp
next
  fix t :: pystr and x2 before rest x2a inside after
  assume "split_on (S ''<think>'') t = Some x2" "(before, rest) = x2"
    "split_on (S ''</think>'') rest = Some x2a" "(inside, after) = x2a"
  then have "t = before @ S ''<think>'' @ rest" "rest = inside @ S ''</think>'' @ after"
    using split_on_Some by metis+
  then have "length t = length before + 7 + length rest"
    and "length rest = length inside + 8 + length after"
    by simp_all
  then have "length after < length t"
    by linarith
  then show "(after, t) \<in> measure length" by simp
qed

declare sub_think_blocks.simps [simp del]

text \<open>
  \<^verbatim>\<open>re.sub(r"<think>.*$", "", cleaned, flags=re.DOTALL)\<close>: everything from the first
  opening tag to the end of the text goes.
\<close>

definition sub_think_tail :: "pystr \<Rightarrow> pystr" where
  "sub_think_tail text =
     (case split_on (S ''<think>'') text of None \<Rightarrow> text | Some (before, rest) \<Rightarrow> before)"

definition strip_thinking_tags :: "pystr \<Rightarrow> pystr" where
  "strip_thinking_tags text = strip (sub_think_tail (sub_think_blocks text))"

text \<open>
  \<open>re.search\<close>: the match at the leftmost start position at which the pattern matches;
  \<open>m\<close> is the pattern anchored at the start of its argument.
\<close>

fun re_search :: "(pystr \<Rightarrow> 'a option) \<Rightarrow> pystr \<Rightarrow> 'a option" where
  "re_search m [] = m []"
| "re_search m (c # cs) = (case m (c # cs) of Some r \<Rightarrow> Some r | None \<Rightarrow> re_search m cs)"

definition FENCE :: pystr where
  "FENCE = [BACKTICK, BACKTICK, BACKTICK]"

text \<open>
  The fence pattern, with \<open>re.DOTALL\<close>: three backticks, an optional \<open>json\<close>, whitespace, then
  group 1 \<open>(\{.*?\})\<close>, whitespace and three backticks. \<open>fence_body\<close> is the lazy \<open>.*?\}\<close>
  behind the opening brace: it ends at the first closing brace that is followed by
  whitespace and a fence. The greedy \<open>(?:json)?\<close> and \<open>\s*\<close> never match after giving
  characters back, since what follows them cannot start with a character they gave back.
\<close>

fun fence_body :: "pystr \<Rightarrow> pystr option" where
  "fence_body [] = None"
| "fence_body (c # cs) =
     (if c = RBRACE \<and> prefix FENCE (dropWhile is_space cs) then Some [c]
      else map_option ((#) c) (fence_body cs))"

definition fence_match :: "pystr \<Rightarrow> pystr option" where
  "fence_match s =
     (if prefix FENCE s then
        (let r1 = drop 3 s;
             r2 = (if prefix (S ''json'') r1 then drop 4 r1 else r1)
         in case dropWhile is_space r2 of
              [] \<Rightarrow> None
            | c # body \<Rightarrow> if c = LBRACE then map_option ((#) c) (fence_body body) else None)
      else None)"

text \<open>
  \<^verbatim>\<open>"<name>"\s*:\s*"(.*?)"\<close> with \<open>re.DOTALL\<close>, anchored: group 1 is the text up to the next
  double quote.
\<close>

definition field_match :: "pystr \<Rightarrow> pystr \<Rightarrow> pystr option" where
  "field_match name s =
     (if prefix (DQUOTE # name @ [DQUOTE]) s then
        (case dropWhile is_space (drop (length name + 2) s) of
           [] \<Rightarrow> None
         | c # r \<Rightarrow>
             if c = COLON then
               (case dropWhile is_space r of
                  [] \<Rightarrow> None
                | q # body \<Rightarrow>
                    if q = DQUOTE \<and> DQUOTE \<in> set body
                    then Some (takeWhile (\<lambda>x. x \<noteq> DQUOTE) body) else None)
             else None)
      else None)"

text \<open>
  \<^verbatim>\<open>re.sub(r",\s*}", "}", fixed)\<close> and \<^verbatim>\<open>re.sub(r",\s*]", "]", fixed)\<close>: a comma, whitespace
  and the closing character become the closing character.
\<close>

function sub_comma_before :: "nat \<Rightarrow> pystr \<Rightarrow> pystr" where
  "sub_comma_before cl [] = []"
| "sub_comma_before cl (c # cs) =
     (if c = COMMA \<and> prefix [cl] (dropWhile is_space cs)
      then cl # sub_comma_before cl (drop 1 (dropWhile is_space cs))
      else c # sub_comma_before cl cs)"
  by pat_completeness auto
termination
proof (relation "measure (\<lambda>(cl, s). length s)", goal_cases)
  case 1
  show ?case by simp
next
  case (2 cl c cs)
  have "length (dropWhile is_space cs) \<le> length cs"
    by (rule length_dropWhile_le)
  then show ?case by simp
next
  case (3 cl c cs)
  then show ?case by simp
qed

definition fix_commas :: "pystr \<Rightarrow> pystr" where
  "fix_commas fixed = sub_comma_before RBRACKET (sub_comma_before RBRACE fixed)"

subsection \<open>The brace matcher\<close>

text \<open>
  The \<open>for i in range(brace_start, len(text))\<close> loop of step 4, run on the text from
  \<open>brace_start\<close> on. The result is the length of the candidate \<open>text[brace_start : i + 1]\<close>
  at the first closing brace that brings \<open>depth\<close> to 0, or \<open>None\<close> when the loop runs off
  the end of the text.
\<close>

fun brace_scan :: "int \<Rightarrow> bool \<Rightarrow> bool \<Rightarrow> pystr \<Rightarrow> nat option" where
  "brace_scan depth in_string escape_next [] = None"
| "brace_scan depth in_string escape_next (c # cs) =
     (if escape_next then map_option Suc (brace_scan depth in_string False cs)
      else if c = BACKSLASH then map_option Suc (brace_scan depth in_string True cs)
      else if c = DQUOTE then map_option Suc (brace_scan depth (\<not> in_string) False cs)
      else if in_string then map_option Suc (brace_scan depth in_string False cs)
      else if c = LBRACE then map_option Suc (brace_scan (depth + 1) in_string False cs)
      else if c = RBRACE then
        (if depth - 1 = 0 then Some 1
         else map_option Suc (brace_scan (depth - 1) in_string False cs))
      else map_option Suc (brace_scan depth in_string False cs))"

definition brace_candidate :: "pystr \<Rightarrow> pystr option" where
  "brace_candidate text =
     (case dropWhile (\<lambda>c. c \<noteq> LBRACE) text of
        [] \<Rightarrow> None
      | b # rest \<Rightarrow> map_option (\<lambda>n. take n (b # rest)) (brace_scan 0 False False (b # rest)))"

subsection \<open>Parsing\<close>

text \<open>
  \<open>json.loads\<close> is a parameter of the model. A call returns the decoded value, raises
  \<open>JSONDecodeError\<close> for a text that is not JSON, or raises something else (the decoder
  raises \<open>RecursionError\<close> for a text nested deeper than the interpreter allows), with the
  text of that exception.
\<close>

datatype loads_outcome = Parsed json | JSONDecodeError | OtherError pystr

text \<open>
  \<^verbatim>\<open>try: return json.loads(s)\<close> with \<^verbatim>\<open>except json.JSONDecodeError: pass\<close>, as every parse
  in \<open>_extract_json\<close> is written: \<open>Some (Inr v)\<close> returns \<open>v\<close>, \<open>None\<close> goes on behind the
  handler, and \<open>Some (Inl e)\<close> is an exception that the handler does not catch.
\<close>

definition try_loads :: "(pystr \<Rightarrow> loads_outcome) \<Rightarrow> pystr \<Rightarrow> (pystr + json) option" where
  "try_loads loads s =
     (case loads s of
        Parsed v \<Rightarrow> Some (Inr v)
      | JSONDecodeError \<Rightarrow> None
      | OtherError e \<Rightarrow> Some (Inl e))"

text \<open>
  The three parses of the candidate: as it is, with trailing commas removed, and with
  single quotes replaced by double quotes and trailing commas removed. \<open>None\<close> is the
  \<open>break\<close> after the third \<open>JSONDecodeError\<close>.
\<close>

definition parse_candidate ::
  "(pystr \<Rightarrow> loads_outcome) \<Rightarrow> pystr \<Rightarrow> (pystr + json) option"
where
  "parse_candidate loads candidate =
     (case try_loads loads candidate of
        Some r \<Rightarrow> Some r
      | None \<Rightarrow>
          (case try_loads loads (fix_commas candidate) of
             Some r \<Rightarrow> Some r
           | None \<Rightarrow>
               try_loads loads
                 (fix_commas (map (\<lambda>c. if c = SQUOTE then DQUOTE else c) candidate))))"

subsection \<open>\<open>_extract_json\<close>\<close>

text \<open>Step 5: a decision built from the \<open>thought\<close> and \<open>response\<close> patterns.\<close>

definition pattern_fallback :: "pystr \<Rightarrow> json" where
  "pattern_fallback text =
     (let thought_match = re_search (field_match (S ''thought'')) text;
          response_match = re_search (field_match (S ''response'')) text
      in case response_match of
           None \<Rightarrow> JNull
         | Some response \<Rightarrow>
             JObj [(S ''thought'', JStr (case thought_match of Some t \<Rightarrow> t | None \<Rightarrow> [])),
                   (S ''action'', JStr (S ''none'')),
                   (S ''parameters'', JObj []),
                   (S ''response'', JStr response),
                   (S ''continue'', JBool False)])"

text \<open>
  The result is the returned Python value (\<open>JNull\<close> is the \<open>None\<close> of "nothing
  extracted", and of a parsed \<open>null\<close>), or the exception that left the function (\<open>Inl\<close>).
\<close>

definition extract_json :: "(pystr \<Rightarrow> loads_outcome) \<Rightarrow> pystr \<Rightarrow> pystr + json" where
  "extract_json loads raw =
     (let text = strip (strip_thinking_tags raw) in
      if text = [] then Inr JNull
      else
        case try_loads loads text of
          Some r \<Rightarrow> r
        | None \<Rightarrow>
            (case Option.bind (re_search fence_match text) (try_loads loads) of
               Some r \<Rightarrow> r
             | None \<Rightarrow>
                 (case Option.bind (brace_candidate text) (parse_candidate loads) of
                    Some r \<Rightarrow> r
                  | None \<Rightarrow> Inr (pattern_fallback text))))"

text \<open>The five fields of a decision, and a value that is a dict holding all of them.\<close>

definition decision_fields :: "pystr list" where
  "decision_fields =
     [S ''thought'', S ''action'', S ''parameters'', S ''response'', S ''continue'']"

fun is_full_decision :: "json \<Rightarrow> bool" where
  "is_full_decision (JObj d) = list_all (dict_has d) decision_fields"
| "is_full_decision v = False"

section \<open>Configuration and collaborators\<close>

text \<open>
  The fields of \<open>Config\<close> that the decision engine reads, with the defaults of
  config.example.py. Temperatures are Python floats; they are modelled as real numbers,
  so \<open>0.2 * attempt\<close> and \<open>max\<close> are exact here.
\<close>

record config =
  NVIDIA_MODEL :: pystr
  MAX_CHAIN_STEPS :: int
  MAX_RETRIES :: int
  CREATIVE_TEMPERATURE :: real
  PRECISE_TEMPERATURE :: real
  MAX_TOKENS :: int

definition CONFIG :: config where
  "CONFIG =
     \<lparr>NVIDIA_MODEL = S ''moonshotai/kimi-k2-instruct-0905'',
      MAX_CHAIN_STEPS = 10,
      MAX_RETRIES = 3,
      CREATIVE_TEMPERATURE = 7 / 10,
      PRECISE_TEMPERATURE = 2 / 10,
      MAX_TOKENS = 4096\<rparr>"

text \<open>
  What the sources use of the interpreter and its library: \<open>json.loads\<close>, \<open>json.dumps\<close>,
  \<open>str.lower\<close>, and \<open>str()\<close> as the f-strings apply it to a value that is not a string.
\<close>

record pylib =
  json_loads :: "pystr \<Rightarrow> loads_outcome"
  json_dumps :: "json \<Rightarrow> pystr"
  str_lower :: "pystr \<Rightarrow> pystr"
  py_str :: "json \<Rightarrow> pystr"

definition format_value :: "pylib \<Rightarrow> json \<Rightarrow> pystr" where
  "format_value lib v = (case v of JStr s \<Rightarrow> s | _ \<Rightarrow> py_str lib v)"

fun py_type_name :: "json \<Rightarrow> pystr" where
  "py_type_name JNull = S ''NoneType''"
| "py_type_name (JBool b) = S ''bool''"
| "py_type_name (JInt i) = S ''int''"
| "py_type_name (JFloat r) = S ''float''"
| "py_type_name (JStr s) = S ''str''"
| "py_type_name (JArr xs) = S ''list''"
| "py_type_name (JObj kvs) = S ''dict''"

text \<open>The message of the \<open>AttributeError\<close> for a method the value's type does not have.\<close>

definition attribute_error :: "json \<Rightarrow> pystr \<Rightarrow> pystr" where
  "attribute_error v attr =
     [SQUOTE] @ py_type_name v @ [SQUOTE] @ S '' object has no attribute '' @
     [SQUOTE] @ attr @ [SQUOTE]"

definition WARNING_SIGN :: pystr where
  "WARNING_SIGN = [0x26A0, 0xFE0F]"

section \<open>Tool dispatch (tools.py)\<close>

record tool_result =
  success :: bool
  stdout :: pystr
  stderr :: pystr
  return_code :: int
  image_path :: pystr
  file_path :: pystr

text \<open>
  A tool handler is code outside the engine. Called with keyword arguments it changes
  the world and returns a \<open>ToolResult\<close>, or raises: a \<open>TypeError\<close> (among them the one the
  call itself raises when the arguments do not fit the signature) or another
  \<open>Exception\<close>; each carries the text of the exception. Exits that are not an \<open>Exception\<close>
  (a cancelled task, an interpreter exit) are not part of the model.
\<close>

datatype handler_outcome =
    Returns tool_result
  | RaisesTypeError pystr
  | RaisesException pystr

type_synonym 'w handler = "pydict \<Rightarrow> 'w \<Rightarrow> handler_outcome \<times> 'w"

definition failed_result :: "pystr \<Rightarrow> tool_result" where
  "failed_result message =
     \<lparr>success = False, stdout = [], stderr = message, return_code = 1,
      image_path = [], file_path = []\<rparr>"

text \<open>\<open>str(list(TOOL_MAP.keys()))\<close>, for keys without quotes or escapes, as the tool names are.\<close>

fun join_keys :: "pystr list \<Rightarrow> pystr" where
  "join_keys [] = []"
| "join_keys [k] = [SQUOTE] @ k @ [SQUOTE]"
| "join_keys (k # ks) = [SQUOTE] @ k @ [SQUOTE] @ S '', '' @ join_keys ks"

definition repr_keys :: "pystr list \<Rightarrow> pystr" where
  "repr_keys ks = S ''['' @ join_keys ks @ S '']''"

text \<open>
  \<open>dispatch_tool\<close>. \<open>TOOL_MAP\<close> is the registry, in its order. The caller passes whatever
  the decision holds as \<open>action\<close> and \<open>parameters\<close>, so both are JSON values: the test
  \<open>action not in TOOL_MAP\<close> hashes the action, which raises \<open>TypeError\<close> for a list or a
  dict (\<open>Inl\<close>: the exception leaves \<open>dispatch_tool\<close>), and \<open>parameters.items()\<close> sits inside
  the \<open>try\<close>.
\<close>

definition dispatch_tool ::
  "pylib \<Rightarrow> (pystr \<times> 'w handler) list \<Rightarrow> json \<Rightarrow> json \<Rightarrow> 'w \<Rightarrow> (pystr + tool_result) \<times> 'w"
where
  "dispatch_tool lib TOOL_MAP action parameters w =
     (case action of
        JArr xs \<Rightarrow> (Inl (S ''unhashable type: '' @ [SQUOTE] @ S ''list'' @ [SQUOTE]), w)
      | JObj kvs \<Rightarrow> (Inl (S ''unhashable type: '' @ [SQUOTE] @ S ''dict'' @ [SQUOTE]), w)
      | _ \<Rightarrow>
          (case (case action of JStr name \<Rightarrow> map_of TOOL_MAP name | _ \<Rightarrow> None) of
             None \<Rightarrow>
               (Inr (failed_result
                  (S ''Unknown tool: '' @ format_value lib action @ S ''. Available: '' @
                   repr_keys (map fst TOOL_MAP))), w)
           | Some func \<Rightarrow>
               (case parameters of
                  JObj items \<Rightarrow>
                    (let clean_params = filter (\<lambda>(k, v). v \<noteq> JNull) items in
                     case func clean_params w of
                       (Returns result, w') \<Rightarrow> (Inr result, w')
                     | (RaisesTypeError e, w') \<Rightarrow>
                         (Inr (failed_result
                            (S ''Invalid parameters for '' @ format_value lib action @ S '': '' @ e)),
                          w')
                     | (RaisesException e, w') \<Rightarrow>
                         (Inr (failed_result (S ''Tool execution error: '' @ e)), w'))
                | _ \<Rightarrow>
                    (Inr (failed_result
                       (S ''Tool execution error: '' @ attribute_error parameters (S ''items''))),
                     w))))"

section \<open>The decision controller (brain.py)\<close>

text \<open>
  A chat message is a role and a content. A request is what \<open>_client.chat.completions.create\<close>
  is called with. The reasoning service is a collaborator that changes the world and
  answers with the \<open>content\<close> of the first choice (\<open>None\<close> when it is missing), or fails with
  an exception (\<open>Inl\<close>, with its text).
\<close>

type_synonym chat_message = "pystr \<times> json"

record llm_request =
  req_model :: pystr
  req_messages :: "chat_message list"
  req_temperature :: real
  req_top_p :: real
  req_max_tokens :: int

type_synonym llm_reply = "pystr + pystr option"

type_synonym llm_call = "llm_request \<times> llm_reply"

text \<open>
  The collaborators of the \<open>Brain\<close>. \<open>build_messages\<close> is the start of \<open>think\<close> (reading the
  context bundle from the store and rendering the system prompt, the history, the recent
  actions, the chain summary and the user message into \<open>messages\<close>); the store reads are
  not inside any \<open>try\<close>, so it can raise. \<open>build_system_prompt\<close> is \<open>_build_system_prompt()\<close>
  without memory context.
\<close>

record 'w brain_env =
  lib :: pylib
  build_messages :: "pystr \<Rightarrow> pydict list option \<Rightarrow> 'w \<Rightarrow> (pystr + chat_message list) \<times> 'w"
  build_system_prompt :: "'w \<Rightarrow> (pystr + pystr) \<times> 'w"
  chat_completion :: "llm_request \<Rightarrow> 'w \<Rightarrow> llm_reply \<times> 'w"

text \<open>The dict literals \<open>think\<close> and \<open>process_tool_result\<close> return on their failure paths.\<close>

definition plain_decision :: "pystr \<Rightarrow> pystr \<Rightarrow> pydict" where
  "plain_decision thought response =
     [(S ''thought'', JStr thought),
      (S ''action'', JStr (S ''none'')),
      (S ''parameters'', JObj []),
      (S ''response'', JStr response),
      (S ''continue'', JBool False)]"

definition corrective_instruction :: pystr where
  \<open>corrective_instruction =
     WARNING_SIGN @ S '' Your previous response was NOT valid JSON. '' @
     S ''You MUST respond with ONLY a JSON object, nothing else. '' @
     S ''Format: {"thought": "...", "action": "...", '' @
     S ''"parameters": {...}, "response": "...", "continue": false}'' @ [NEWLINE] @
     S ''NO markdown, NO backticks, NO extra text. JUST THE JSON.''\<close>

text \<open>
  The temperature and the extra messages of attempt number \<open>attempt\<close>.
\<close>

definition attempt_temperature :: "real \<Rightarrow> int \<Rightarrow> real" where
  "attempt_temperature temperature attempt =
     (if attempt > 0 then max (1 / 10) (temperature - (2 / 10) * of_int attempt)
      else temperature)"

definition attempt_extra_messages :: "int \<Rightarrow> chat_message list" where
  "attempt_extra_messages attempt =
     (if attempt > 0 then [(S ''user'', JStr corrective_instruction)] else [])"

text \<open>
  The \<open>try\<close> block of one attempt, behind the service call. \<open>Inr (Done d)\<close> is a \<open>return\<close>
  and \<open>Inr Next\<close> the \<open>continue\<close>; \<open>Inl\<close> is an exception raised inside the block: by the
  service call, by \<open>_extract_json\<close>, or by \<open>decision.get\<close> on an extracted value that is
  not a dict.
\<close>

datatype attempt_result = Done pydict | Next

definition content_or_empty :: "pystr option \<Rightarrow> pystr" where
  "content_or_empty content = (case content of None \<Rightarrow> [] | Some c \<Rightarrow> c)"

definition unformatted_decision :: "pystr \<Rightarrow> pydict" where
  "unformatted_decision raw =
     (let cleaned = strip (strip_thinking_tags raw) in
      plain_decision (S ''Response was not in JSON format after retries.'')
        (if cleaned \<noteq> [] then cleaned
         else S ''I processed your request but couldn'' @ [SQUOTE] @
              S ''t format the response properly.''))"

definition fill_defaults :: "pydict \<Rightarrow> pydict" where
  "fill_defaults d =
     setdefault (S ''continue'') (JBool False)
       (setdefault (S ''response'') (JStr (S ''I processed your request.''))
         (setdefault (S ''parameters'') (JObj [])
           (setdefault (S ''action'') (JStr (S ''none''))
             (setdefault (S ''thought'') (JStr []) d))))"

definition attempt_try :: "config \<Rightarrow> pylib \<Rightarrow> int \<Rightarrow> llm_reply \<Rightarrow> pystr + attempt_result" where
  "attempt_try cfg lb attempt reply =
     (case reply of
        Inl e \<Rightarrow> Inl e
      | Inr content \<Rightarrow>
          (let raw = content_or_empty content in
           case extract_json (json_loads lb) raw of
             Inl e \<Rightarrow> Inl e
           | Inr JNull \<Rightarrow>
               if attempt < MAX_RETRIES cfg - 1 then Inr Next
               else Inr (Done (unformatted_decision raw))
           | Inr (JObj d) \<Rightarrow> Inr (Done (fill_defaults d))
           | Inr v \<Rightarrow> Inl (attribute_error v (S ''get''))))"

text \<open>
  One pass through the body of \<open>for attempt in range(CONFIG.MAX_RETRIES)\<close>: the request, the
  \<open>try\<close> block and the \<open>except Exception\<close> handler, which returns on the last attempt and
  otherwise falls through to the next one.
\<close>

definition attempt_request :: "config \<Rightarrow> chat_message list \<Rightarrow> real \<Rightarrow> int \<Rightarrow> llm_request" where
  "attempt_request cfg messages temperature attempt =
     \<lparr>req_model = NVIDIA_MODEL cfg,
      req_messages = messages @ attempt_extra_messages attempt,
      req_temperature = attempt_temperature temperature attempt,
      req_top_p = 9 / 10,
      req_max_tokens = MAX_TOKENS cfg\<rparr>"

definition think_attempt ::
  "config \<Rightarrow> 'w brain_env \<Rightarrow> chat_message list \<Rightarrow> real \<Rightarrow> int \<Rightarrow> 'w \<Rightarrow> (attempt_result \<times> llm_call) \<times> 'w"
where
  "think_attempt cfg env messages temperature attempt w =
     (let request = attempt_request cfg messages temperature attempt;
          (reply, w') = chat_completion env request w;
          result =
            (case attempt_try cfg (lib env) attempt reply of
               Inr r \<Rightarrow> r
             | Inl e \<Rightarrow>
                 if attempt = MAX_RETRIES cfg - 1
                 then Done (plain_decision (S ''Error occurred: '' @ e)
                        (WARNING_SIGN @ S '' I encountered an error while processing: '' @ e))
                 else Next)
      in ((result, (request, reply)), w'))"

text \<open>
  The loop, from attempt number \<open>attempt\<close> on; \<open>calls\<close> collects the service calls made, in
  order. The last line is the \<open>return\<close> behind the loop.
\<close>

function think_attempts ::
  "config \<Rightarrow> 'w brain_env \<Rightarrow> chat_message list \<Rightarrow> real \<Rightarrow> int \<Rightarrow> llm_call list \<Rightarrow> 'w
     \<Rightarrow> pydict \<times> llm_call list \<times> 'w"
where
  "think_attempts cfg env messages temperature attempt calls w =
     (if attempt < MAX_RETRIES cfg then
        (case think_attempt cfg env messages temperature attempt w of
           ((Done decision, call), w') \<Rightarrow> (decision, calls @ [call], w')
         | ((Next, call), w') \<Rightarrow>
             think_attempts cfg env messages temperature (attempt + 1) (calls @ [call]) w')
      else
        (plain_decision (S ''Unexpected flow.'')
           (WARNING_SIGN @ S '' Something went wrong. Please try again.''),
         calls, w))"
  by pat_completeness auto
termination
  by (relation "measure (\<lambda>(cfg, env, messages, temperature, attempt, calls, w).
        nat (MAX_RETRIES cfg - attempt))") auto

declare think_attempts.simps [simp del]

text \<open>
  \<open>Brain.think\<close>. Its result is the returned dict, or the exception that left it (\<open>Inl\<close>),
  together with the service calls it made.
\<close>

definition base_temperature :: "config \<Rightarrow> pystr \<Rightarrow> real" where
  "base_temperature cfg task_type =
     (if task_type = S ''creative'' then CREATIVE_TEMPERATURE cfg
      else if task_type = S ''precise'' then PRECISE_TEMPERATURE cfg
      else 5 / 10)"

definition think ::
  "config \<Rightarrow> 'w brain_env \<Rightarrow> pystr \<Rightarrow> pydict list option \<Rightarrow> 'w
     \<Rightarrow> (pystr + pydict) \<times> llm_call list \<times> 'w"
where
  "think cfg env user_message chain_context w =
     (case build_messages env user_message chain_context w of
        (Inl e, w') \<Rightarrow> (Inl e, [], w')
      | (Inr messages, w') \<Rightarrow>
          (let task_type = classify_task (str_lower (lib env)) user_message;
               temperature = base_temperature cfg task_type
           in case think_attempts cfg env messages temperature 0 [] w' of
                (decision, calls, w'') \<Rightarrow> (Inr decision, calls, w'')))"

subsection \<open>\<open>process_tool_result\<close>\<close>

definition tool_output_text :: "pylib \<Rightarrow> json \<Rightarrow> tool_result \<Rightarrow> pystr" where
  "tool_output_text lb action tool_result =
     S ''Tool '' @ [SQUOTE] @ format_value lb action @ [SQUOTE] @ S '' executed.'' @ [NEWLINE] @
     S ''Success: '' @ py_str lb (JBool (success tool_result)) @ [NEWLINE] @
     S ''Return code: '' @ py_str lb (JInt (return_code tool_result)) @ [NEWLINE] @
     (if stdout tool_result \<noteq> []
      then S ''STDOUT:'' @ [NEWLINE] @ take 3000 (stdout tool_result) @ [NEWLINE] else []) @
     (if stderr tool_result \<noteq> []
      then S ''STDERR:'' @ [NEWLINE] @ take 1500 (stderr tool_result) @ [NEWLINE] else [])"

definition followup_message :: "pystr \<Rightarrow> pystr" where
  \<open>followup_message tool_output =
     S ''The tool has been executed. Here is the result:'' @ [NEWLINE, NEWLINE] @
     tool_output @ [NEWLINE, NEWLINE] @
     S ''Provide a clear, helpful summary for the user. '' @
     S ''If the task requires more steps, set '' @ [SQUOTE] @ S ''continue'' @ [SQUOTE] @
     S '' to true and specify the next action. '' @
     S ''Respond with ONLY a JSON object: '' @
     S ''{"thought": "...", "action": "<next_tool_or_none>", '' @
     S ''"parameters": {<args_or_empty>}, "response": "...", "continue": <true_or_false>}''\<close>

text \<open>The dict of the \<open>except\<close> branch: a summary made from the tool result alone.\<close>

definition local_summary :: "pylib \<Rightarrow> tool_result \<Rightarrow> pydict" where
  "local_summary lb tool_result =
     plain_decision (S ''Fallback summary due to API error.'')
       (if stdout tool_result \<noteq> [] then take 2000 (stdout tool_result)
        else if stderr tool_result \<noteq> [] then S ''Error: '' @ take 1000 (stderr tool_result)
        else S ''Command completed with return code '' @
             py_str lb (JInt (return_code tool_result)) @ S ''.'')"

text \<open>
  What the \<open>try\<close> block does with the extracted \<open>result\<close>: the test
  \<open>result and "response" in result\<close> and the branch taken. \<open>"response" in result\<close> is key
  membership for a dict, element membership for a list, a substring test for a string and
  a \<open>TypeError\<close> for a number or \<open>True\<close>; \<open>result.setdefault\<close> is an \<open>AttributeError\<close> on a list
  or a string.
\<close>

definition not_iterable :: "json \<Rightarrow> pystr" where
  "not_iterable v =
     S ''argument of type '' @ [SQUOTE] @ py_type_name v @ [SQUOTE] @ S '' is not iterable''"

definition summarize_raw :: "pystr \<Rightarrow> pydict" where
  "summarize_raw raw =
     (let cleaned = strip (strip_thinking_tags raw) in
      plain_decision (S ''Summarizing tool output.'')
        (if cleaned \<noteq> [] then cleaned else S ''Tool executed successfully.''))"

definition reflect_result :: "json \<Rightarrow> pystr \<Rightarrow> pystr + pydict" where
  "reflect_result result raw =
     (if \<not> truthy result then Inr (summarize_raw raw)
      else
        case result of
          JObj d \<Rightarrow>
            if dict_has d (S ''response'') then
              Inr (setdefault (S ''continue'') (JBool False)
                    (setdefault (S ''parameters'') (JObj [])
                      (setdefault (S ''action'') (JStr (S ''none'')) d)))
            else Inr (summarize_raw raw)
        | JArr xs \<Rightarrow>
            if JStr (S ''response'') \<in> set xs then Inl (attribute_error result (S ''setdefault''))
            else Inr (summarize_raw raw)
        | JStr s \<Rightarrow>
            if contains (S ''response'') s then Inl (attribute_error result (S ''setdefault''))
            else Inr (summarize_raw raw)
        | _ \<Rightarrow> Inl (not_iterable result))"

text \<open>
  \<open>Brain.process_tool_result\<close>. \<open>decision['action']\<close> is read before the \<open>try\<close>, so a
  decision without that key raises \<open>KeyError\<close> (\<open>Inl\<close>). Everything else is inside the
  \<open>try\<close>, whose \<open>except Exception\<close> branch returns the local summary.
\<close>

definition reflect_request :: "config \<Rightarrow> pylib \<Rightarrow> pystr \<Rightarrow> pydict \<Rightarrow> pystr \<Rightarrow> llm_request" where
  "reflect_request cfg lb system_prompt decision followup =
     (let clean_decision = filter (\<lambda>(k, v). \<not> prefix (S ''_'') k) decision in
      \<lparr>req_model = NVIDIA_MODEL cfg,
       req_messages =
         [(S ''system'', JStr system_prompt),
          (S ''user'', dict_get decision (S ''_original_message'') (JStr [])),
          (S ''assistant'', JStr (json_dumps lb (JObj clean_decision))),
          (S ''user'', JStr followup)],
       req_temperature = PRECISE_TEMPERATURE cfg,
       req_top_p = 9 / 10,
       req_max_tokens = MAX_TOKENS cfg\<rparr>)"

definition process_tool_result ::
  "config \<Rightarrow> 'w brain_env \<Rightarrow> pydict \<Rightarrow> tool_result \<Rightarrow> 'w \<Rightarrow> (pystr + pydict) \<times> 'w"
where
  "process_tool_result cfg env decision tool_result w =
     (case map_of decision (S ''action'') of
        None \<Rightarrow> (Inl ([SQUOTE] @ S ''action'' @ [SQUOTE]), w)
      | Some action \<Rightarrow>
          (let followup = followup_message (tool_output_text (lib env) action tool_result) in
           case build_system_prompt env w of
             (Inl e, w1) \<Rightarrow> (Inr (local_summary (lib env) tool_result), w1)
           | (Inr system_prompt, w1) \<Rightarrow>
               (case chat_completion env
                       (reflect_request cfg (lib env) system_prompt decision followup) w1 of
                  (Inl e, w2) \<Rightarrow> (Inr (local_summary (lib env) tool_result), w2)
                | (Inr content, w2) \<Rightarrow>
                    (let raw = content_or_empty content in
                     case extract_json (json_loads (lib env)) raw of
                       Inl e \<Rightarrow> (Inr (local_summary (lib env) tool_result), w2)
                     | Inr result \<Rightarrow>
                         (case reflect_result result raw of
                            Inl e \<Rightarrow> (Inr (local_summary (lib env) tool_result), w2)
                          | Inr d \<Rightarrow> (Inr d, w2))))))"

section \<open>The chain orchestrator (telegram\_handler.py)\<close>

text \<open>One entry of \<open>chain_context\<close>.\<close>

record chain_step =
  cs_step :: int
  cs_action :: json
  cs_parameters :: json
  cs_success :: bool
  cs_output :: pystr

text \<open>
  The collaborators of \<open>execute_tool_chain\<close>: \<open>dispatch_tool\<close>, \<open>_brain.process_tool_result\<close>
  and \<open>_memory.store_action\<close>, each of which may raise (\<open>Inl\<close>); the status message
  (\<open>env_status has_status step action\<close> edits or sends it inside a \<open>try\<close> whose handler is
  \<open>pass\<close>, and tells whether \<open>status_msg\<close> is set afterwards; \<open>env_delete_status\<close> deletes
  it); and \<open>send_image_to_chat\<close> and \<open>send_file_to_chat\<close>, which catch what they raise.
\<close>

record 'w chain_env =
  env_dispatch_tool :: "json \<Rightarrow> json \<Rightarrow> 'w \<Rightarrow> (pystr + tool_result) \<times> 'w"
  env_process_tool_result :: "pydict \<Rightarrow> tool_result \<Rightarrow> 'w \<Rightarrow> (pystr + pydict) \<times> 'w"
  env_store_action :: "json \<Rightarrow> json \<Rightarrow> pystr \<Rightarrow> bool \<Rightarrow> json \<Rightarrow> json \<Rightarrow> 'w \<Rightarrow> (pystr + unit) \<times> 'w"
  env_status :: "bool \<Rightarrow> int \<Rightarrow> json \<Rightarrow> 'w \<Rightarrow> bool \<times> 'w"
  env_delete_status :: "'w \<Rightarrow> 'w"
  env_send_image :: "pystr \<Rightarrow> json \<Rightarrow> 'w \<Rightarrow> 'w"
  env_send_file :: "pystr \<Rightarrow> json \<Rightarrow> 'w \<Rightarrow> 'w"

text \<open>
  The local variables of \<open>execute_tool_chain\<close>. \<open>dispatched\<close> is not a variable of the
  source: it records the calls of \<open>dispatch_tool\<close> made so far, as (action, parameters).
\<close>

record chain_state =
  decision :: pydict
  chain_context :: "chain_step list"
  step :: int
  status_msg :: bool
  final_response :: json
  dispatched :: "(json \<times> json) list"

text \<open>The test that sends the loop into the dispatch branch, and the one that continues.\<close>

definition names_tool :: "json \<Rightarrow> bool" where
  "names_tool action \<longleftrightarrow> truthy action \<and> action \<noteq> JStr (S ''none'')"

definition wants_next :: "pydict \<Rightarrow> json \<Rightarrow> bool" where
  "wants_next follow_decision should_continue \<longleftrightarrow>
     (let next_action = dict_get follow_decision (S ''action'') (JStr (S ''none''));
          next_continue = dict_get follow_decision (S ''continue'') (JBool False)
      in names_tool next_action \<and> (truthy next_continue \<or> truthy should_continue))"

text \<open>
  One pass through the body of \<open>while step < CONFIG.MAX_CHAIN_STEPS\<close>: \<open>Continue\<close> and \<open>Break\<close>
  as in the source, \<open>Raise\<close> for an exception that leaves the function; each with the local
  variables at that point.
\<close>

datatype iteration = Continue chain_state | Break chain_state | Raise pystr chain_state

definition chain_deliver :: "'w chain_env \<Rightarrow> pydict \<Rightarrow> tool_result \<Rightarrow> 'w \<Rightarrow> 'w" where
  "chain_deliver env current tool_result w3 =
     (let caption = dict_get current (S ''response'') (JStr []);
          w4 = (if image_path tool_result \<noteq> [] \<and> success tool_result
                then env_send_image env (image_path tool_result) caption w3 else w3)
      in if file_path tool_result \<noteq> [] \<and> success tool_result
         then env_send_file env (file_path tool_result) caption w4 else w4)"

definition chain_follow :: "pystr \<Rightarrow> json \<Rightarrow> chain_state \<Rightarrow> pydict \<Rightarrow> iteration" where
  "chain_follow user_text should_continue st2 follow_decision =
     (let st3 = st2\<lparr>final_response :=
                  dict_get follow_decision (S ''response'') (final_response st2)\<rparr>
      in if wants_next follow_decision should_continue
         then Continue (st3\<lparr>decision :=
                dict_set (S ''_original_message'') (JStr user_text) follow_decision\<rparr>)
         else Break st3)"

definition chain_iteration :: "'w chain_env \<Rightarrow> pystr \<Rightarrow> chain_state \<Rightarrow> 'w \<Rightarrow> iteration \<times> 'w" where
  "chain_iteration env user_text st w =
     (let action = dict_get (decision st) (S ''action'') (JStr (S ''none''));
          parameters = dict_get (decision st) (S ''parameters'') (JObj []);
          should_continue = dict_get (decision st) (S ''continue'') (JBool False)
      in
      if names_tool action then
        (let (has_status, w1) = env_status env (status_msg st) (step st + 1) action w;
             st1 = st\<lparr>step := step st + 1, status_msg := has_status,
                      dispatched := dispatched st @ [(action, parameters)]\<rparr>
         in case env_dispatch_tool env action parameters w1 of
              (Inl e, w2) \<Rightarrow> (Raise e st1, w2)
            | (Inr tool_result, w2) \<Rightarrow>
                (let result_text =
                       (if stdout tool_result \<noteq> [] then stdout tool_result
                        else stderr tool_result);
                     st2 = st1\<lparr>chain_context := chain_context st1 @
                              [\<lparr>cs_step = step st1, cs_action = action,
                                cs_parameters = parameters,
                                cs_success = success tool_result,
                                cs_output = take 500 result_text\<rparr>]\<rparr>
                 in case env_store_action env action parameters result_text
                           (success tool_result)
                           (dict_get (decision st) (S ''thought'') (JStr []))
                           (dict_get (decision st) (S ''response'') (JStr [])) w2 of
                      (Inl e, w3) \<Rightarrow> (Raise e st2, w3)
                    | (Inr u, w3) \<Rightarrow>
                        (case env_process_tool_result env (decision st) tool_result
                                (chain_deliver env (decision st) tool_result w3) of
                           (Inl e, w6) \<Rightarrow> (Raise e st2, w6)
                         | (Inr follow_decision, w6) \<Rightarrow>
                             (chain_follow user_text should_continue st2 follow_decision, w6))))
      else (Break st, w))"

lemma chain_iteration_Continue_step:
  assumes "chain_iteration env user_text st w = (Continue st', w')"
  shows "step st' = step st + 1"
  using assms
  by (auto simp: chain_iteration_def chain_follow_def Let_def
      split: if_splits prod.splits sum.splits)

text \<open>
  The \<open>while\<close> loop: the exception that left it, if any, and the local variables at the
  end.
\<close>

function chain_loop ::
  "config \<Rightarrow> 'w chain_env \<Rightarrow> pystr \<Rightarrow> chain_state \<Rightarrow> 'w \<Rightarrow> (pystr option \<times> chain_state) \<times> 'w"
where
  "chain_loop cfg env user_text st w =
     (if step st < MAX_CHAIN_STEPS cfg then
        (case chain_iteration env user_text st w of
           (Continue st', w') \<Rightarrow> chain_loop cfg env user_text st' w'
         | (Break st', w') \<Rightarrow> ((None, st'), w')
         | (Raise e st', w') \<Rightarrow> ((Some e, st'), w'))
      else ((None, st), w))"
  by pat_completeness auto
termination
proof (relation "measure (\<lambda>(cfg, env, user_text, st, w). nat (MAX_CHAIN_STEPS cfg - step st))",
    goal_cases)
  case 1
  show ?case by simp
next
  case (2 cfg env user_text st w x1 w' st')
  then have "chain_iteration env user_text st w = (Continue st', w')" by simp
  from chain_iteration_Continue_step[OF this] 2(1) show ?case by simp
qed

declare chain_loop.simps [simp del]

text \<open>
  \<open>execute_tool_chain\<close>: the returned pair \<open>(final_response, chain_context)\<close>, or the
  exception that left the function (\<open>Inl\<close>), together with the local variables at the end.
  The status message is deleted on the way out of a run that returns.
\<close>

definition initial_state :: "pydict \<Rightarrow> chain_state" where
  "initial_state initial_decision =
     \<lparr>decision = initial_decision, chain_context = [], step = 0, status_msg = False,
      final_response = dict_get initial_decision (S ''response'') (JStr []),
      dispatched = []\<rparr>"

definition execute_tool_chain ::
  "config \<Rightarrow> 'w chain_env \<Rightarrow> pystr \<Rightarrow> pydict \<Rightarrow> 'w
     \<Rightarrow> (pystr + json \<times> chain_step list) \<times> chain_state \<times> 'w"
where
  "execute_tool_chain cfg env user_text initial_decision w =
     (case chain_loop cfg env user_text (initial_state initial_decision) w of
        ((Some e, st), w') \<Rightarrow> (Inl e, st, w')
      | ((None, st), w') \<Rightarrow>
          (Inr (final_response st, chain_context st), st,
           if status_msg st then env_delete_status env w' else w'))"

section \<open>Specification vocabulary and example collaborators\<close>

text \<open>
  The defaults of the decision invariant, what it means for a dict to be a parsed dict
  with its missing fields defaulted, and what it means for the five fields to have their
  types.
\<close>

definition decision_defaults :: pydict where
  "decision_defaults =
     [(S ''thought'', JStr []),
      (S ''action'', JStr (S ''none'')),
      (S ''parameters'', JObj []),
      (S ''response'', JStr (S ''I processed your request.'')),
      (S ''continue'', JBool False)]"

definition filled_from :: "pydict \<Rightarrow> pydict \<Rightarrow> bool" where
  "filled_from d dec \<longleftrightarrow>
     (\<forall>k. map_of dec k = (case map_of d k of Some v \<Rightarrow> Some v | None \<Rightarrow> map_of decision_defaults k))"

definition well_typed_decision :: "pydict \<Rightarrow> bool" where
  "well_typed_decision d \<longleftrightarrow>
     (case map_of d (S ''thought'') of Some (JStr s) \<Rightarrow> True | _ \<Rightarrow> False)
     \<and> (case map_of d (S ''action'') of Some (JStr s) \<Rightarrow> True | _ \<Rightarrow> False)
     \<and> (case map_of d (S ''parameters'') of Some (JObj kvs) \<Rightarrow> True | _ \<Rightarrow> False)
     \<and> (case map_of d (S ''response'') of Some (JStr s) \<Rightarrow> True | _ \<Rightarrow> False)
     \<and> (case map_of d (S ''continue'') of Some (JBool b) \<Rightarrow> True | _ \<Rightarrow> False)"

text \<open>
  The texts that \<open>_extract_json\<close> hands to \<open>json.loads\<close>, in the order of the calls: the
  stripped text; group 1 of the fence pattern, if the pattern matches; and the first
  brace-balanced candidate, if there is one, as it is, with trailing commas removed, and
  with single quotes replaced and trailing commas removed. \<open>first_decoded\<close> is the outcome
  of the first of these calls that does not raise \<open>JSONDecodeError\<close>.
\<close>

definition parse_inputs :: "pystr \<Rightarrow> pystr list" where
  "parse_inputs raw =
     (let text = strip (strip_thinking_tags raw) in
      if text = [] then []
      else
        [text] @
        (case re_search fence_match text of None \<Rightarrow> [] | Some block \<Rightarrow> [block]) @
        (case brace_candidate text of
           None \<Rightarrow> []
         | Some candidate \<Rightarrow>
             [candidate, fix_commas candidate,
              fix_commas (map (\<lambda>c. if c = SQUOTE then DQUOTE else c) candidate)]))"

fun first_decoded :: "(pystr \<Rightarrow> loads_outcome) \<Rightarrow> pystr list \<Rightarrow> (pystr + json) option" where
  "first_decoded loads [] = None"
| "first_decoded loads (s # ss) =
     (case try_loads loads s of Some r \<Rightarrow> Some r | None \<Rightarrow> first_decoded loads ss)"

text \<open>
  A logged call is served when its reply is what the reasoning service answers to its
  request. \<open>attempt_raises\<close> is the exception raised inside the \<open>try\<close> block of an attempt
  with a given reply: the service's own; one that left \<open>_extract_json\<close>; or the
  \<open>AttributeError\<close> of \<open>decision.get\<close> on an extracted value that is neither \<open>None\<close> nor a dict.
\<close>

definition served :: "'w brain_env \<Rightarrow> llm_call \<Rightarrow> bool" where
  "served env call \<longleftrightarrow> (\<exists>w. fst (chat_completion env (fst call) w) = snd call)"

definition attempt_raises :: "pylib \<Rightarrow> llm_reply \<Rightarrow> pystr \<Rightarrow> bool" where
  "attempt_raises lb reply e \<longleftrightarrow>
     (case reply of
        Inl service_error \<Rightarrow> e = service_error
      | Inr content \<Rightarrow>
          (case extract_json (json_loads lb) (content_or_empty content) of
             Inl parse_error \<Rightarrow> e = parse_error
           | Inr JNull \<Rightarrow> False
           | Inr (JObj d) \<Rightarrow> False
           | Inr v \<Rightarrow> e = attribute_error v (S ''get'')))"

text \<open>
  The three ways in which the retry loop of \<open>think\<close> returns a dict, told by the last call
  it made: the reply was extracted to a dict, which is returned with its missing fields
  defaulted; the reply of the last attempt allowed was extracted to \<open>None\<close>; the last
  attempt allowed raised.
\<close>

definition loop_outcome :: "config \<Rightarrow> pylib \<Rightarrow> llm_call list \<Rightarrow> pydict \<Rightarrow> bool" where
  "loop_outcome cfg lb calls dec \<longleftrightarrow>
     (\<exists>earlier request content d.
         calls = earlier @ [(request, Inr content)]
         \<and> extract_json (json_loads lb) (content_or_empty content) = Inr (JObj d)
         \<and> filled_from d dec)
     \<or> (\<exists>earlier request content.
         calls = earlier @ [(request, Inr content)]
         \<and> int (length calls) = MAX_RETRIES cfg
         \<and> extract_json (json_loads lb) (content_or_empty content) = Inr JNull
         \<and> dec = unformatted_decision (content_or_empty content)
         \<and> well_typed_decision dec)
     \<or> (\<exists>earlier request reply e.
         calls = earlier @ [(request, reply)]
         \<and> int (length calls) = MAX_RETRIES cfg
         \<and> attempt_raises lb reply e
         \<and> dec = plain_decision (S ''Error occurred: '' @ e)
                   (WARNING_SIGN @ S '' I encountered an error while processing: '' @ e)
         \<and> well_typed_decision dec)"

text \<open>
  Collaborators to run examples with: a \<open>json.loads\<close> that decodes the listed texts to
  the listed values and rejects every other text; a library with a given \<open>json.loads\<close>,
  ASCII lowercasing and empty renderings; a reasoning service that gives the same reply
  to every request; a \<open>wait\<close> tool that takes the one parameter \<open>seconds\<close>.
\<close>

definition loads_table :: "(pystr \<times> json) list \<Rightarrow> pystr \<Rightarrow> loads_outcome" where
  "loads_table table s = (case map_of table s of Some v \<Rightarrow> Parsed v | None \<Rightarrow> JSONDecodeError)"

definition example_lib :: "(pystr \<Rightarrow> loads_outcome) \<Rightarrow> pylib" where
  "example_lib loads =
     \<lparr>json_loads = loads, json_dumps = (\<lambda>v. []), str_lower = ascii_lower, py_str = (\<lambda>v. [])\<rparr>"

definition fixed_reply_env :: "(pystr \<Rightarrow> loads_outcome) \<Rightarrow> llm_reply \<Rightarrow> unit brain_env" where
  "fixed_reply_env loads reply =
     \<lparr>lib = example_lib loads,
      build_messages = (\<lambda>user_message chain w. (Inr [(S ''user'', JStr user_message)], w)),
      build_system_prompt = (\<lambda>w. (Inr [], w)),
      chat_completion = (\<lambda>request w. (reply, w))\<rparr>"

definition wait_handler :: "unit handler" where
  "wait_handler params w =
     (if map fst params = [S ''seconds'']
      then (Returns \<lparr>success = True, stdout = S ''Waited'', stderr = [], return_code = 0,
                     image_path = [], file_path = []\<rparr>, w)
      else (RaisesTypeError (S ''wait() got an unexpected keyword argument''), w))"

text \<open>
  The state an iteration ends in, and the relation between the counters of the chain
  loop: every recorded step belongs to a dispatch, and \<open>step\<close> counts the dispatches.
\<close>

fun iteration_state :: "iteration \<Rightarrow> chain_state" where
  "iteration_state (Continue st) = st"
| "iteration_state (Break st) = st"
| "iteration_state (Raise e st) = st"

definition chain_inv :: "chain_state \<Rightarrow> bool" where
  "chain_inv st \<longleftrightarrow>
     length (chain_context st) \<le> length (dispatched st) \<and> int (length (dispatched st)) = step st"

text \<open>
  Chain collaborators to run examples with: every dispatch fails (\<open>success = False\<close>),
  and every reflection asks for the \<open>wait\<close> tool again with \<open>continue\<close> set.
\<close>

definition looping_env :: "unit chain_env" where
  "looping_env =
     \<lparr>env_dispatch_tool = (\<lambda>action parameters w. (Inr (failed_result (S ''boom'')), w)),
      env_process_tool_result =
        (\<lambda>current tool_result w.
           (Inr [(S ''action'', JStr (S ''wait'')), (S ''continue'', JBool True),
                 (S ''response'', JStr (S ''again''))], w)),
      env_store_action = (\<lambda>action parameters result ok thought response w. (Inr (), w)),
      env_status = (\<lambda>has_status n action w. (True, w)),
      env_delete_status = (\<lambda>w. w),
      env_send_image = (\<lambda>path caption w. w),
      env_send_file = (\<lambda>path caption w. w)\<rparr>"

section \<open>Properties of message splitting\<close>

lemma rfind_bounds:
  assumes "c \<in> set s"
  shows "0 \<le> rfind c s \<and> rfind c s < int (length s)"
proof -
  have "c \<in> set xs \<Longrightarrow> length (takeWhile (\<lambda>x. x \<noteq> c) xs) < length xs" for xs
    by (induction xs) auto
  from this[of "rev s"] have "length (takeWhile (\<lambda>x. x \<noteq> c) (rev s)) < length s"
    using assms by simp
  then show ?thesis using assms by (simp add: rfind_def)
qed

lemma rfind_absent: "c \<notin> set s \<Longrightarrow> rfind c s = - 1"
  by (simp add: rfind_def)

lemma choose_split_pos_bounds:
  assumes "2 \<le> m" and "m < int (length t)"
  shows "1 \<le> choose_split_pos m t \<and> choose_split_pos m t \<le> m"
proof -
  have len: "int (length (slice_to m t)) = m"
    using assms by (simp add: slice_to_def)
  have half: "1 \<le> m div 2" using assms by simp
  have r: "rfind c (slice_to m t) = - 1 \<or>
           (0 \<le> rfind c (slice_to m t) \<and> rfind c (slice_to m t) < m)" for c
    using rfind_bounds[of c "slice_to m t"] rfind_absent[of c "slice_to m t"] len
    by (cases "c \<in> set (slice_to m t)") auto
  show ?thesis
    using r[of NEWLINE] r[of SPACE] half assms(1)
    by (auto simp: choose_split_pos_def Let_def)
qed

lemma rejoins_Nil: "rejoins [] []"
  unfolding rejoins_def by (intro exI[of _ "[]"]) simp

lemma rejoins_single: "rejoins [t] t"
  unfolding rejoins_def by (intro exI[of _ "[[]]"]) simp

lemma rejoins_Cons:
  assumes "rejoins out rest" and "list_all (\<lambda>c. c = NEWLINE) sep"
  shows "rejoins (c # out) (c @ sep @ rest)"
proof -
  from assms(1) obtain seps where s: "length seps = length out"
      "list_all (\<lambda>s. list_all (\<lambda>c. c = NEWLINE) s) seps" "rest = concat (map2 (@) out seps)"
    unfolding rejoins_def by blast
  show ?thesis
    unfolding rejoins_def using s assms(2)
    by (intro exI[of _ "sep # seps"]) simp
qed

lemma split_loop_spec:
  assumes "2 \<le> m"
  shows "\<exists>out. split_loop m t acc = Some (acc @ out)
           \<and> list_all (\<lambda>c. int (length c) \<le> m \<and> c \<noteq> []) out \<and> rejoins out t"
proof (induction "length t" arbitrary: t acc rule: less_induct)
  case less
  show ?case
  proof (cases "t = []")
    case True
    then show ?thesis
      by (intro exI[of _ "[]"]) (subst split_loop.simps, simp add: rejoins_Nil)
  next
    case nonempty: False
    show ?thesis
    proof (cases "int (length t) \<le> m")
      case True
      with nonempty show ?thesis
        by (intro exI[of _ "[t]"]) (subst split_loop.simps, simp add: rejoins_single)
    next
      case False
      define sp where "sp = choose_split_pos m t"
      define chunk where "chunk = slice_to sp t"
      define rest0 where "rest0 = slice_from sp t"
      define rest where "rest = dropWhile (\<lambda>c. c = NEWLINE) rest0"
      have sp: "1 \<le> sp" "sp \<le> m"
        using choose_split_pos_bounds[OF assms, of t] False by (simp_all add: sp_def)
      have chunk: "chunk = take (nat sp) t" and rest0: "rest0 = drop (nat sp) t"
        using sp by (simp_all add: chunk_def rest0_def slice_to_def slice_from_def)
      have chunk_len: "int (length chunk) = sp"
        using sp False by (simp add: chunk)
      have shorter: "length rest < length t"
      proof -
        have "length rest \<le> length rest0"
          by (simp add: rest_def length_dropWhile_le)
        also have "\<dots> < length t"
          using sp nonempty by (simp add: rest0)
        finally show ?thesis .
      qed
      from less[OF shorter, of "acc @ [chunk]"] obtain out where out:
        "split_loop m rest (acc @ [chunk]) = Some ((acc @ [chunk]) @ out)"
        "list_all (\<lambda>c. int (length c) \<le> m \<and> c \<noteq> []) out" "rejoins out rest"
        by blast
      have unfold: "split_loop m t acc = split_loop m rest (acc @ [chunk])"
        using nonempty False
        by (subst split_loop.simps) (simp add: rest_def rest0_def chunk_def sp_def)
      have text_eq: "t = chunk @ takeWhile (\<lambda>c. c = NEWLINE) rest0 @ rest"
        by (simp add: chunk rest0 rest_def)
      have "rejoins (chunk # out) (chunk @ takeWhile (\<lambda>c. c = NEWLINE) rest0 @ rest)"
        by (rule rejoins_Cons[OF out(3)]) (simp add: list_all_iff, meson set_takeWhileD)
      then have rj: "rejoins (chunk # out) t"
        using text_eq by simp
      have "chunk \<noteq> []" using chunk_len sp by auto
      then show ?thesis
        using unfold out rj chunk_len sp
        by (intro exI[of _ "chunk # out"]) simp
    qed
  qed
qed

text \<open>
  Claim C10. For every text and every \<open>max_length \<ge> 2\<close>, \<open>split_message\<close> returns (the
  loop terminates), every chunk has at most \<open>max_length\<close> characters, every chunk of a
  non-empty text is non-empty, and the text is the chunks in order with only runs of newline
  characters dropped after chunks.
\<close>

theorem split_message_chunks:
  assumes "2 \<le> max_length"
  shows "\<exists>chunks. split_message t max_length = Some chunks
           \<and> list_all (\<lambda>c. int (length c) \<le> max_length) chunks
           \<and> (t \<noteq> [] \<longrightarrow> list_all (\<lambda>c. c \<noteq> []) chunks)
           \<and> rejoins chunks t"
proof (cases "int (length t) \<le> max_length")
  case True
  then show ?thesis
    by (intro exI[of _ "[t]"]) (simp add: split_message_def rejoins_single)
next
  case False
  from split_loop_spec[OF assms, of t "[]"] obtain out where
    "split_loop max_length t [] = Some out"
    "list_all (\<lambda>c. int (length c) \<le> max_length \<and> c \<noteq> []) out" "rejoins out t"
    by auto
  then show ?thesis
    using False by (intro exI[of _ out]) (simp add: split_message_def list_all_iff)
qed

theorem split_message_chunks_witness:
  "(2::int) \<le> 4 \<and>
   (\<exists>chunks. split_message (S ''ab cd ef'') 4 = Some chunks
      \<and> list_all (\<lambda>c. int (length c) \<le> 4) chunks
      \<and> list_all (\<lambda>c. c \<noteq> []) chunks
      \<and> rejoins chunks (S ''ab cd ef''))"
  using split_message_chunks[of 4 "S ''ab cd ef''"] by simp

text \<open>
  The bound on \<open>max_length\<close> is needed: with \<open>max_length = 1\<close> the text \<open>" a"\<close> is split at
  position 0, which leaves it as it was, and the loop does not return.
\<close>

lemma split_loop_stuck:
  assumes "split_loop m t acc = Some r"
  shows "\<not> (m = 1 \<and> t = [SPACE, 97])"
  using assms
proof (induction m t acc r rule: split_loop.raw_induct[rotated 1, consumes 1])
  case (1 split_loop' m t acc r)
  show ?case
  proof
    assume stuck: "m = 1 \<and> t = [SPACE, 97]"
    then have pos: "choose_split_pos m t = 0"
      by (simp add: choose_split_pos_def slice_to_def rfind_def SPACE_def NEWLINE_def)
    from 1(2) stuck pos have "split_loop' m t (acc @ [[]]) = Some r"
      by (simp add: slice_to_def slice_from_def SPACE_def NEWLINE_def)
    from 1(1)[OF this] stuck show False by simp
  qed
qed

lemma split_message_may_diverge: "split_message [SPACE, 97] 1 = None"
proof (cases "split_message [SPACE, 97] 1")
  case None
  then show ?thesis .
next
  case (Some r)
  then have "split_loop 1 [SPACE, 97] [] = Some r"
    by (simp add: split_message_def)
  from split_loop_stuck[OF this] show ?thesis by simp
qed

section \<open>Properties of task classification\<close>

lemma contains_iff_sublist: "contains p s \<longleftrightarrow> sublist p s"
  by (induction s) (auto simp: sublist_Cons_right)

text \<open>
  Claim C9. \<open>_classify_task\<close> is a function of the message text alone: it is \<open>creative\<close> if
  a creative signal is a substring of the lowercased text, else \<open>precise\<close> if a precise
  signal is, else \<open>balanced\<close>; a text that matches both sets is \<open>creative\<close>; and two
  texts with the same lowercase form get the same class.
\<close>

theorem classify_task_spec:
  "classify_task lower message =
     (if \<exists>signal \<in> set creative_signals. sublist signal (lower message) then S ''creative''
      else if \<exists>signal \<in> set precise_signals. sublist signal (lower message) then S ''precise''
      else S ''balanced'')
   \<and> ((\<exists>c \<in> set creative_signals. sublist c (lower message))
        \<and> (\<exists>p \<in> set precise_signals. sublist p (lower message))
        \<longrightarrow> classify_task lower message = S ''creative'')
   \<and> (\<forall>other. lower other = lower message
        \<longrightarrow> classify_task lower other = classify_task lower message)"
  by (simp add: classify_task_def Let_def list_ex_iff contains_iff_sublist)

theorem classify_task_spec_witness:
  "S ''story'' \<in> set creative_signals \<and> sublist (S ''story'') (ascii_lower (S ''RUN the Story''))
   \<and> S ''run'' \<in> set precise_signals \<and> sublist (S ''run'') (ascii_lower (S ''RUN the Story''))
   \<and> classify_task ascii_lower (S ''RUN the Story'') = S ''creative''
   \<and> ascii_lower (S ''run THE story'') = ascii_lower (S ''RUN the Story'')
   \<and> classify_task ascii_lower (S ''run THE story'') = classify_task ascii_lower (S ''RUN the Story'')"
proof -
  have a: "S ''story'' \<in> set creative_signals" by (simp add: creative_signals_def)
  have b: "sublist (S ''story'') (ascii_lower (S ''RUN the Story''))"
    by (simp add: ascii_lower_def sublist_code)
  have c: "S ''run'' \<in> set precise_signals" by (simp add: precise_signals_def)
  have d: "sublist (S ''run'') (ascii_lower (S ''RUN the Story''))"
    by (simp add: ascii_lower_def sublist_code)
  have e: "ascii_lower (S ''run THE story'') = ascii_lower (S ''RUN the Story'')"
    by (simp add: ascii_lower_def)
  from classify_task_spec[of ascii_lower "S ''RUN the Story''"] a b c d e
  show ?thesis by blast
qed

section \<open>Properties of JSON extraction\<close>

lemma extract_json_first_decoded:
  "extract_json loads raw =
     (case first_decoded loads (parse_inputs raw) of
        Some r \<Rightarrow> r
      | None \<Rightarrow> Inr (pattern_fallback (strip (strip_thinking_tags raw))))"
proof -
  define t where "t = strip (strip_thinking_tags raw)"
  have empty: "pattern_fallback [] = JNull"
    by (simp add: pattern_fallback_def field_match_def)
  show ?thesis
    unfolding extract_json_def parse_inputs_def t_def[symmetric] Let_def
    by (cases "re_search fence_match t"; cases "brace_candidate t")
       (simp_all add: empty parse_candidate_def split: option.splits)
qed

lemma first_decoded_Some:
  assumes "first_decoded loads xs = Some r"
  shows "\<exists>before s after. xs = before @ s # after
           \<and> list_all (\<lambda>p. loads p = JSONDecodeError) before
           \<and> ((\<exists>v. loads s = Parsed v \<and> r = Inr v) \<or> (\<exists>e. loads s = OtherError e \<and> r = Inl e))"
  using assms
proof (induction xs)
  case Nil
  then show ?case by simp
next
  case (Cons x xs)
  show ?case
  proof (cases "loads x")
    case (Parsed v)
    with Cons.prems have "r = Inr v" by (simp add: try_loads_def)
    with Parsed show ?thesis by (intro exI[of _ "[]"] exI[of _ x] exI[of _ xs]) simp
  next
    case JSONDecodeError
    with Cons.prems have "first_decoded loads xs = Some r" by (simp add: try_loads_def)
    from Cons.IH[OF this] obtain before s after where *: "xs = before @ s # after"
        "list_all (\<lambda>p. loads p = JSONDecodeError) before"
        "(\<exists>v. loads s = Parsed v \<and> r = Inr v) \<or> (\<exists>e. loads s = OtherError e \<and> r = Inl e)"
      by blast
    with JSONDecodeError show ?thesis
      by (intro exI[of _ "x # before"] exI[of _ s] exI[of _ after]) simp
  next
    case (OtherError e)
    with Cons.prems have "r = Inl e" by (simp add: try_loads_def)
    with OtherError show ?thesis by (intro exI[of _ "[]"] exI[of _ x] exI[of _ xs]) simp
  qed
qed

lemma first_decoded_None:
  assumes "first_decoded loads xs = None"
  shows "list_all (\<lambda>p. loads p = JSONDecodeError) xs"
  using assms
proof (induction xs)
  case Nil
  then show ?case by simp
next
  case (Cons x xs)
  then show ?case by (cases "loads x") (simp_all add: try_loads_def)
qed

text \<open>
  Claim C2, as the code has it. \<open>_extract_json\<close> hands to \<open>json.loads\<close>, in this order, the
  stripped text, the fenced block if there is one, and the first brace-balanced candidate
  if there is one (as it is, then repaired in two ways), until a call does not raise
  \<open>JSONDecodeError\<close>. It returns the value of that call as it was parsed (its fields are
  not filled in, and it need not be a dict), or lets the exception of that call through.
  When every call raised \<open>JSONDecodeError\<close>, or the stripped text is empty, it returns the
  record of step 5, which holds all five fields with action \<open>none\<close>, parameters \<open>{}\<close> and
  continue \<open>False\<close>, if the \<open>response\<close> pattern is found in the text, and \<open>None\<close> if not. It
  raises nothing else.
\<close>

theorem extract_json_cases:
  "(\<exists>before s after v.
       parse_inputs raw = before @ s # after
       \<and> list_all (\<lambda>p. loads p = JSONDecodeError) before
       \<and> loads s = Parsed v
       \<and> extract_json loads raw = Inr v)
   \<or> (\<exists>before s after e.
       parse_inputs raw = before @ s # after
       \<and> list_all (\<lambda>p. loads p = JSONDecodeError) before
       \<and> loads s = OtherError e
       \<and> extract_json loads raw = Inl e)
   \<or> (\<exists>response d.
       list_all (\<lambda>p. loads p = JSONDecodeError) (parse_inputs raw)
       \<and> re_search (field_match (S ''response'')) (strip (strip_thinking_tags raw)) = Some response
       \<and> d = [(S ''thought'',
                 JStr (case re_search (field_match (S ''thought'')) (strip (strip_thinking_tags raw)) of
                         Some thought \<Rightarrow> thought | None \<Rightarrow> [])),
                (S ''action'', JStr (S ''none'')),
                (S ''parameters'', JObj []),
                (S ''response'', JStr response),
                (S ''continue'', JBool False)]
       \<and> extract_json loads raw = Inr (JObj d)
       \<and> is_full_decision (JObj d))
   \<or> (list_all (\<lambda>p. loads p = JSONDecodeError) (parse_inputs raw)
       \<and> re_search (field_match (S ''response'')) (strip (strip_thinking_tags raw)) = None
       \<and> extract_json loads raw = Inr JNull)"
proof (cases "first_decoded loads (parse_inputs raw)")
  case (Some r)
  then have res: "extract_json loads raw = r"
    by (simp add: extract_json_first_decoded)
  from first_decoded_Some[OF Some] obtain before s after where split:
      "parse_inputs raw = before @ s # after"
      "list_all (\<lambda>p. loads p = JSONDecodeError) before"
      and out: "(\<exists>v. loads s = Parsed v \<and> r = Inr v) \<or> (\<exists>e. loads s = OtherError e \<and> r = Inl e)"
    by blast
  from out show ?thesis
  proof
    assume "\<exists>v. loads s = Parsed v \<and> r = Inr v"
    then obtain v where "loads s = Parsed v" "extract_json loads raw = Inr v"
      using res by blast
    with split show ?thesis by blast
  next
    assume "\<exists>e. loads s = OtherError e \<and> r = Inl e"
    then obtain e where "loads s = OtherError e" "extract_json loads raw = Inl e"
      using res by blast
    with split show ?thesis by blast
  qed
next
  case None
  define t where "t = strip (strip_thinking_tags raw)"
  from None have res: "extract_json loads raw = Inr (pattern_fallback t)"
    by (simp add: extract_json_first_decoded t_def)
  from first_decoded_None[OF None]
  have all: "list_all (\<lambda>p. loads p = JSONDecodeError) (parse_inputs raw)" .
  show ?thesis
  proof (cases "re_search (field_match (S ''response'')) t")
    case no_response: None
    then have "pattern_fallback t = JNull"
      by (simp add: pattern_fallback_def)
    with res all no_response show ?thesis
      unfolding t_def by simp
  next
    case (Some response)
    define d where "d = [(S ''thought'',
                 JStr (case re_search (field_match (S ''thought'')) t of
                         Some thought \<Rightarrow> thought | None \<Rightarrow> [])),
                (S ''action'', JStr (S ''none'')),
                (S ''parameters'', JObj []),
                (S ''response'', JStr response),
                (S ''continue'', JBool False)]"
    from Some have "pattern_fallback t = JObj d"
      by (simp add: pattern_fallback_def d_def)
    with res have r: "extract_json loads raw = Inr (JObj d)" by simp
    have full: "is_full_decision (JObj d)"
      by (simp add: d_def decision_fields_def dict_has_def)
    have third: "\<exists>response d.
       list_all (\<lambda>p. loads p = JSONDecodeError) (parse_inputs raw)
       \<and> re_search (field_match (S ''response'')) (strip (strip_thinking_tags raw)) = Some response
       \<and> d = [(S ''thought'',
                 JStr (case re_search (field_match (S ''thought'')) (strip (strip_thinking_tags raw)) of
                         Some thought \<Rightarrow> thought | None \<Rightarrow> [])),
                (S ''action'', JStr (S ''none'')),
                (S ''parameters'', JObj []),
                (S ''response'', JStr response),
                (S ''continue'', JBool False)]
       \<and> extract_json loads raw = Inr (JObj d)
       \<and> is_full_decision (JObj d)"
      using all Some r full unfolding t_def[symmetric] d_def[symmetric]
      by (intro exI[of _ response] exI[of _ d] conjI) (assumption | rule d_def)+
    then show ?thesis by (intro disjI2 disjI1)
  qed
qed

text \<open>
  The claim as stated fails: the model output \<^verbatim>\<open>{"response": "hi"}\<close> parses directly, and
  the dict is returned as parsed, with one field.
\<close>

theorem extract_json_fields_counterexample:
  \<open>extract_json (loads_table [(S ''{"response": "hi"}'', JObj [(S ''response'', JStr (S ''hi''))])])
      (S ''{"response": "hi"}'') = Inr (JObj [(S ''response'', JStr (S ''hi''))])
   \<and> \<not> is_full_decision (JObj [(S ''response'', JStr (S ''hi''))])\<close>
  by (simp add: extract_json_def strip_thinking_tags_def sub_think_tail_def strip_def is_space_def
      sub_think_blocks.simps try_loads_def loads_table_def decision_fields_def dict_has_def)

text \<open>
  The raising case occurs: the first \<open>json.loads\<close> call is guarded by
  \<open>except json.JSONDecodeError\<close> only, so any other exception it raises on the stripped
  text (a \<open>RecursionError\<close> on deeply nested brackets) leaves \<open>_extract_json\<close>.
\<close>

lemma extract_json_propagates:
  assumes "strip (strip_thinking_tags raw) \<noteq> []"
    and "loads (strip (strip_thinking_tags raw)) = OtherError e"
  shows "extract_json loads raw = Inl e"
  using assms by (simp add: extract_json_def try_loads_def)

text \<open>
  The fenced block and the brace-balanced candidate are spans of the stripped text; the
  repaired candidates need not be: \<^verbatim>\<open>{"a": 1,}\<close> is returned as the value of
  \<^verbatim>\<open>{"a": 1}\<close>.
\<close>

lemma fence_body_prefix: "fence_body cs = Some b \<Longrightarrow> prefix b cs"
  by (induction cs arbitrary: b) (auto split: if_splits)

lemma suffix_dropWhile_sublist:
  assumes "dropWhile P xs = c # ys" and "prefix b ys"
  shows "sublist (c # b) xs"
proof -
  from assms(2) obtain r where "ys = b @ r" by (auto simp: prefix_def)
  with assms(1) have "xs = takeWhile P xs @ (c # b) @ r"
    by (metis append_Cons takeWhile_dropWhile_id)
  then show ?thesis unfolding sublist_def by blast
qed

lemma fence_match_span:
  assumes "fence_match s = Some g"
  shows "sublist g s"
proof -
  from assms have pre: "prefix FENCE s"
    by (simp add: fence_match_def split: if_splits)
  define r1 where "r1 = drop 3 s"
  define r2 where "r2 = (if prefix (S ''json'') r1 then drop 4 r1 else r1)"
  from assms pre obtain c body b where dw: "dropWhile is_space r2 = c # body"
      and b: "fence_body body = Some b" and g: "g = c # b"
    by (auto simp: fence_match_def Let_def r1_def r2_def split: list.splits if_splits)
  from suffix_dropWhile_sublist[OF dw fence_body_prefix[OF b]] g
  have "sublist g r2" by simp
  moreover have "suffix r2 r1" by (simp add: r2_def suffix_drop)
  moreover have "suffix r1 s" by (simp add: r1_def suffix_drop)
  ultimately show ?thesis
    by (meson sublist_order.order_trans suffix_imp_sublist)
qed

lemma re_search_span:
  assumes "\<And>u g. m u = Some g \<Longrightarrow> sublist g u" and "re_search m s = Some g"
  shows "sublist g s"
  using assms(2)
proof (induction s)
  case Nil
  then have "m [] = Some g" by simp
  from assms(1)[OF this] show ?case .
next
  case (Cons c cs)
  show ?case
  proof (cases "m (c # cs)")
    case None
    with Cons have "sublist g cs" by simp
    then show ?thesis by (metis sublist_Cons_right)
  next
    case (Some r)
    with Cons.prems have "r = g" by simp
    with Some assms(1) show ?thesis by blast
  qed
qed

lemma fence_block_span: "re_search fence_match t = Some g \<Longrightarrow> sublist g t"
  using re_search_span[of fence_match] fence_match_span by blast

lemma brace_candidate_span:
  assumes "brace_candidate t = Some c"
  shows "sublist c t"
proof -
  from assms obtain n where c: "c = take n (dropWhile (\<lambda>c. c \<noteq> LBRACE) t)"
    by (auto simp: brace_candidate_def split: list.splits)
  have "prefix c (dropWhile (\<lambda>c. c \<noteq> LBRACE) t)"
    unfolding c by (rule take_is_prefix)
  moreover have "suffix (dropWhile (\<lambda>c. c \<noteq> LBRACE) t) t"
    by (rule suffix_dropWhile)
  ultimately show ?thesis
    by (meson prefix_imp_sublist sublist_order.order_trans suffix_imp_sublist)
qed

lemma extract_json_repaired:
  \<open>extract_json (loads_table [(S ''{"a": 1}'', JObj [(S ''a'', JInt 1)])]) (S ''{"a": 1,}'')
     = Inr (JObj [(S ''a'', JInt 1)])\<close>
  by (simp add: extract_json_first_decoded parse_inputs_def strip_thinking_tags_def
      sub_think_tail_def sub_think_blocks.simps strip_def is_space_def try_loads_def loads_table_def
      fence_match_def FENCE_def BACKTICK_def brace_candidate_def LBRACE_def RBRACE_def DQUOTE_def
      BACKSLASH_def fix_commas_def COMMA_def RBRACKET_def SQUOTE_def Let_def)

lemma split_on_None_iff: "split_on pat s = None \<longleftrightarrow> \<not> contains pat s"
  by (induction s) (auto split: option.splits)

lemma sub_think_blocks_id:
  assumes "\<not> contains (S ''<think>'') s"
  shows "sub_think_blocks s = s"
proof -
  from assms have "split_on (S ''<think>'') s = None"
    by (simp add: split_on_None_iff)
  then show ?thesis by (subst sub_think_blocks.simps) simp
qed

lemma strip_thinking_tags_id:
  assumes "\<not> contains (S ''<think>'') s"
  shows "strip_thinking_tags s = strip s"
proof -
  from assms have "split_on (S ''<think>'') s = None"
    by (simp add: split_on_None_iff)
  then show ?thesis
    using sub_think_blocks_id[OF assms] by (simp add: strip_thinking_tags_def sub_think_tail_def)
qed

lemma dropWhile_before: "\<not> P a \<Longrightarrow> dropWhile P (xs @ a # ys) = dropWhile P xs @ a # ys"
  by (induction xs) auto

lemma strip_frame:
  assumes "\<not> is_space a" "\<not> is_space b"
  shows "strip (pre @ a # mid @ b # post)
         = dropWhile is_space pre @ a # mid @ b # rev (dropWhile is_space (rev post))"
proof -
  have "dropWhile is_space (pre @ a # mid @ b # post) = dropWhile is_space pre @ a # mid @ b # post"
    using assms(1) by (rule dropWhile_before)
  moreover have "rev (dropWhile is_space pre @ a # mid @ b # post)
      = rev post @ b # (rev mid @ a # rev (dropWhile is_space pre))"
    by simp
  moreover have "dropWhile is_space (rev post @ b # zs) = dropWhile is_space (rev post) @ b # zs" for zs
    using assms(2) by (rule dropWhile_before)
  ultimately show ?thesis
    by (simp add: strip_def)
qed

lemma strip_frame_twice:
  assumes "\<not> is_space a" "\<not> is_space b"
  shows "strip (strip (pre @ a # mid @ b # post)) = strip (pre @ a # mid @ b # post)"
  by (simp add: strip_frame[OF assms])

lemma not_space_BACKTICK: "\<not> is_space BACKTICK"
  by (simp add: is_space_def BACKTICK_def)

lemma not_space_braces: "\<not> is_space LBRACE" "\<not> is_space RBRACE"
  by (simp_all add: is_space_def LBRACE_def RBRACE_def)

lemma dropWhile_spaces: "list_all is_space ws \<Longrightarrow> dropWhile is_space (ws @ ys) = dropWhile is_space ys"
  by (induction ws) auto

lemma prefix_FENCE_inside:
  assumes "prefix FENCE (d @ c # ys)" and "c \<noteq> BACKTICK" 
  shows "prefix FENCE d"
proof -
  from assms(1) have "take 3 (d @ c # ys) = FENCE"
    by (metis FENCE_def append_eq_conv_conj length_Cons list.size(3) numeral_3_eq_3 prefix_def)
  show ?thesis
  proof (cases "3 \<le> length d")
    case True
    with \<open>take 3 (d @ c # ys) = FENCE\<close> have "take 3 d = FENCE" by simp
    then show ?thesis by (metis take_is_prefix)
  next
    case False
    then have "length d < 3" by simp
    then have "(d @ c # ys) ! length d = c" by simp
    moreover have "(take 3 (d @ c # ys)) ! length d = (d @ c # ys) ! length d"
      using \<open>length d < 3\<close> by (rule nth_take)
    moreover have "FENCE ! length d = BACKTICK"
      using \<open>length d < 3\<close> by (auto simp: FENCE_def less_Suc_eq numeral_3_eq_3)
    ultimately show ?thesis
      using \<open>take 3 (d @ c # ys) = FENCE\<close> assms(2) by simp
  qed
qed

lemma fence_body_inner:
  assumes "\<not> sublist FENCE body" and "list_all is_space ws2"
  shows "fence_body (body @ RBRACE # ws2 @ FENCE @ q) = Some (body @ [RBRACE])"
  using assms(1)
proof (induction body)
  case Nil
  have "dropWhile is_space (ws2 @ FENCE @ q) = FENCE @ q"
    using dropWhile_spaces[OF assms(2)] not_space_BACKTICK by (simp add: FENCE_def)
  then show ?case by simp
next
  case (Cons c body)
  have no: "\<not> sublist FENCE body"
    using Cons.prems by (simp add: sublist_Cons_right)
  have "\<not> prefix FENCE (dropWhile is_space (body @ RBRACE # ws2 @ FENCE @ q))"
  proof
    assume p: "prefix FENCE (dropWhile is_space (body @ RBRACE # ws2 @ FENCE @ q))"
    have "RBRACE \<noteq> BACKTICK" by (simp add: RBRACE_def BACKTICK_def)
    have "dropWhile is_space (body @ RBRACE # ws2 @ FENCE @ q)
          = dropWhile is_space body @ RBRACE # ws2 @ FENCE @ q"
      using not_space_braces(2) by (rule dropWhile_before)
    with p have "prefix FENCE (dropWhile is_space body)"
      using prefix_FENCE_inside[OF _ \<open>RBRACE \<noteq> BACKTICK\<close>] by metis
    then have "sublist FENCE (dropWhile is_space body)"
      by (rule prefix_imp_sublist)
    then obtain a b where "dropWhile is_space body = a @ FENCE @ b"
      by (auto simp: sublist_def)
    then have "body = (takeWhile is_space body @ a) @ FENCE @ b"
      by (metis append.assoc takeWhile_dropWhile_id)
    then have "sublist FENCE body"
      by (metis sublist_appendI)
    with no show False by simp
  qed
  with Cons.IH[OF no] show ?case by simp
qed

lemma fence_match_block:
  assumes "tag = [] \<or> tag = S ''json''"
    and "list_all is_space ws1" "list_all is_space ws2"
    and "\<not> sublist FENCE body"
  shows "fence_match (FENCE @ tag @ ws1 @ LBRACE # body @ RBRACE # ws2 @ FENCE @ q)
         = Some (LBRACE # body @ [RBRACE])"
proof -
  let ?rest = "ws1 @ LBRACE # body @ RBRACE # ws2 @ FENCE @ q"
  have dw: "dropWhile is_space ?rest = LBRACE # body @ RBRACE # ws2 @ FENCE @ q"
    using dropWhile_spaces[OF assms(2), of "LBRACE # body @ RBRACE # ws2 @ FENCE @ q"]
      not_space_braces(1) by simp
  have fb: "fence_body (body @ RBRACE # ws2 @ FENCE @ q) = Some (body @ [RBRACE])"
    by (rule fence_body_inner[OF assms(4) assms(3)])
  have nj: "\<not> prefix (S ''json'') ?rest"
  proof (cases ws1)
    case Nil
    then show ?thesis by (simp add: LBRACE_def)
  next
    case (Cons x xs)
    with assms(2) have "is_space x" by simp
    then have "x \<noteq> 106" by (auto simp: is_space_def)
    with Cons show ?thesis by simp
  qed
  from assms(1) show ?thesis
  proof
    assume "tag = []"
    then show ?thesis
      using dw fb nj by (simp add: fence_match_def FENCE_def)
  next
    assume "tag = S ''json''"
    then show ?thesis
      using dw fb by (simp add: fence_match_def FENCE_def)
  qed
qed

lemma fence_match_needs_fence: "\<not> prefix FENCE s \<Longrightarrow> fence_match s = None"
  by (simp add: fence_match_def)

lemma re_search_skip:
  assumes "\<not> sublist FENCE (p @ [BACKTICK, BACKTICK])"
    and "fence_match (FENCE @ r) = Some g"
  shows "re_search fence_match (p @ FENCE @ r) = Some g"
  using assms(1)
proof (induction p)
  case Nil
  then show ?case using assms(2) by (simp add: FENCE_def)
next
  case (Cons c p)
  have no: "\<not> sublist FENCE (p @ [BACKTICK, BACKTICK])"
    using Cons.prems by (simp add: sublist_Cons_right)
  have "\<not> prefix FENCE ((c # p) @ FENCE @ r)"
  proof
    assume "prefix FENCE ((c # p) @ FENCE @ r)"
    then have "take 3 ((c # p) @ FENCE @ r) = FENCE"
      by (metis FENCE_def append_eq_conv_conj length_Cons list.size(3) numeral_3_eq_3 prefix_def)
    moreover have "take 3 ((c # p) @ FENCE @ r) = take 3 ((c # p) @ [BACKTICK, BACKTICK])"
      by (cases p; cases "tl p") (auto simp: FENCE_def)
    ultimately have "prefix FENCE ((c # p) @ [BACKTICK, BACKTICK])"
      by (metis take_is_prefix)
    then have "sublist FENCE ((c # p) @ [BACKTICK, BACKTICK])"
      by (rule prefix_imp_sublist)
    with Cons.prems show False by simp
  qed
  then have "fence_match ((c # p) @ FENCE @ r) = None"
    by (rule fence_match_needs_fence)
  with Cons.IH[OF no] show ?case by simp
qed


text \<open>
  Claim C7, as the code has it. Let a text consist of leading prose, a fence of three
  backticks, an optional \<open>json\<close> tag, whitespace, a block from \<open>{\<close> to \<open>}\<close> that
  \<open>json.loads\<close> parses, whitespace, a closing fence and trailing prose. If the text holds
  no \<open><think>\<close> tag, is not valid JSON as a whole, no fence starts inside the leading prose
  and the block holds no fence, then \<open>_extract_json\<close> returns exactly what parsing the
  block alone gives.
\<close>

theorem fenced_round_trip:
  assumes raw: "raw = pre @ FENCE @ tag @ ws1 @ LBRACE # body @ RBRACE # ws2 @ FENCE @ post"
    and tag: "tag = [] \<or> tag = S ''json''"
    and ws: "list_all is_space ws1" "list_all is_space ws2"
    and no_think: "\<not> sublist (S ''<think>'') raw"
    and no_fence_before: "\<not> sublist FENCE (pre @ [BACKTICK, BACKTICK])"
    and no_fence_inside: "\<not> sublist FENCE body"
    and whole: "loads (strip raw) = JSONDecodeError"
    and inner: "loads (LBRACE # body @ [RBRACE]) = Parsed v"
  shows "extract_json loads raw = Inr v"
proof -
  define p where "p = dropWhile is_space pre"
  define q where "q = rev (dropWhile is_space (rev post))"
  define r where "r = tag @ ws1 @ LBRACE # body @ RBRACE # ws2 @ FENCE @ q"
  define mid where "mid = [BACKTICK, BACKTICK] @ tag @ ws1 @ LBRACE # body @ RBRACE # ws2 @ [BACKTICK, BACKTICK]"
  have shape: "raw = pre @ BACKTICK # mid @ BACKTICK # post"
    by (simp add: raw mid_def FENCE_def)
  have stripped: "strip raw = p @ FENCE @ r"
    unfolding shape strip_frame[OF not_space_BACKTICK not_space_BACKTICK]
    by (simp add: p_def q_def r_def mid_def FENCE_def)
  have twice: "strip (strip raw) = strip raw"
    unfolding shape by (rule strip_frame_twice[OF not_space_BACKTICK not_space_BACKTICK])
  have tags: "strip_thinking_tags raw = strip raw"
    using no_think by (intro strip_thinking_tags_id) (simp add: contains_iff_sublist)
  have nonempty: "strip raw \<noteq> []"
    by (simp add: stripped FENCE_def)
  have before: "\<not> sublist FENCE (p @ [BACKTICK, BACKTICK])"
  proof
    assume "sublist FENCE (p @ [BACKTICK, BACKTICK])"
    then obtain a b where "p @ [BACKTICK, BACKTICK] = a @ FENCE @ b"
      by (auto simp: sublist_def)
    then have "pre @ [BACKTICK, BACKTICK] = (takeWhile is_space pre @ a) @ FENCE @ b"
      by (metis append.assoc p_def takeWhile_dropWhile_id)
    then have "sublist FENCE (pre @ [BACKTICK, BACKTICK])"
      by (metis sublist_appendI)
    with no_fence_before show False by simp
  qed
  have "fence_match (FENCE @ r) = Some (LBRACE # body @ [RBRACE])"
    unfolding r_def by (rule fence_match_block[OF tag ws no_fence_inside])
  from re_search_skip[OF before this]
  have found: "re_search fence_match (strip raw) = Some (LBRACE # body @ [RBRACE])"
    by (simp add: stripped)
  show ?thesis
    using nonempty whole found inner by (simp add: extract_json_def tags twice try_loads_def)
qed

theorem fenced_round_trip_witness:
  \<open>S ''Sure: '' @ FENCE @ S ''json'' @ [NEWLINE] @ S ''{"response": "hi"}'' @ [NEWLINE] @ FENCE @ S '' Done.''
     = S ''Sure: '' @ FENCE @ S ''json'' @ [NEWLINE] @ LBRACE # S ''"response": "hi"'' @ RBRACE # [NEWLINE] @ FENCE @ S '' Done.''
   \<and> list_all is_space [NEWLINE]
   \<and> \<not> sublist (S ''<think>'')
        (S ''Sure: '' @ FENCE @ S ''json'' @ [NEWLINE] @ S ''{"response": "hi"}'' @ [NEWLINE] @ FENCE @ S '' Done.'')
   \<and> \<not> sublist FENCE (S ''Sure: '' @ [BACKTICK, BACKTICK])
   \<and> \<not> sublist FENCE (S ''"response": "hi"'')
   \<and> loads_table [(S ''{"response": "hi"}'', JObj [(S ''response'', JStr (S ''hi''))])]
        (strip (S ''Sure: '' @ FENCE @ S ''json'' @ [NEWLINE] @ S ''{"response": "hi"}'' @ [NEWLINE] @ FENCE @ S '' Done.''))
      = JSONDecodeError
   \<and> loads_table [(S ''{"response": "hi"}'', JObj [(S ''response'', JStr (S ''hi''))])]
        (LBRACE # S ''"response": "hi"'' @ [RBRACE]) = Parsed (JObj [(S ''response'', JStr (S ''hi''))])
   \<and> extract_json (loads_table [(S ''{"response": "hi"}'', JObj [(S ''response'', JStr (S ''hi''))])])
        (S ''Sure: '' @ FENCE @ S ''json'' @ [NEWLINE] @ S ''{"response": "hi"}'' @ [NEWLINE] @ FENCE @ S '' Done.'')
      = Inr (JObj [(S ''response'', JStr (S ''hi''))])\<close>
proof -
  let ?loads = \<open>loads_table [(S ''{"response": "hi"}'', JObj [(S ''response'', JStr (S ''hi''))])]\<close>
  let ?raw = \<open>S ''Sure: '' @ FENCE @ S ''json'' @ [NEWLINE] @ S ''{"response": "hi"}'' @ [NEWLINE] @ FENCE @ S '' Done.''\<close>
  have h1: \<open>?raw = S ''Sure: '' @ FENCE @ S ''json'' @ [NEWLINE] @ LBRACE # S ''"response": "hi"'' @ RBRACE # [NEWLINE] @ FENCE @ S '' Done.''\<close>
    by (simp add: LBRACE_def RBRACE_def)
  have h2: "S ''json'' = [] \<or> S ''json'' = S ''json''" by simp
  have h3: "list_all is_space [NEWLINE]" by (simp add: is_space_def NEWLINE_def)
  have h4: "\<not> sublist (S ''<think>'') ?raw"
    by (simp add: sublist_code FENCE_def BACKTICK_def NEWLINE_def)
  have h5: "\<not> sublist FENCE (S ''Sure: '' @ [BACKTICK, BACKTICK])"
    by (simp add: sublist_code FENCE_def BACKTICK_def)
  have h6: \<open>\<not> sublist FENCE (S ''"response": "hi"'')\<close>
    by (simp add: sublist_code FENCE_def BACKTICK_def)
  have h7: "?loads (strip ?raw) = JSONDecodeError"
    by (simp add: loads_table_def strip_def is_space_def FENCE_def BACKTICK_def NEWLINE_def)
  have h8: \<open>?loads (LBRACE # S ''"response": "hi"'' @ [RBRACE]) = Parsed (JObj [(S ''response'', JStr (S ''hi''))])\<close>
    by (simp add: loads_table_def LBRACE_def RBRACE_def)
  from fenced_round_trip[OF h1 h2 h3 h3 h4 h5 h6 h7 h8] h1 h3 h4 h5 h6 h7 h8
  show ?thesis by blast
qed

text \<open>
  The claim as stated fails for arbitrary prose and arbitrary well-formed blocks: step 1
  removes everything behind an unclosed \<open><think>\<close>, also inside the block. Here the block
  is \<^verbatim>\<open>{"response": "use <think>"}\<close>; parsed alone it is a record, but the extractor
  returns \<open>None\<close>.
\<close>

theorem fenced_think_counterexample:
  \<open>loads_table [(S ''{"response": "use <think>"}'', JObj [(S ''response'', JStr (S ''use <think>''))])]
      (S ''{"response": "use <think>"}'') = Parsed (JObj [(S ''response'', JStr (S ''use <think>''))])
   \<and> extract_json
        (loads_table [(S ''{"response": "use <think>"}'', JObj [(S ''response'', JStr (S ''use <think>''))])])
        (S ''Sure: '' @ FENCE @ S ''{"response": "use <think>"}'' @ FENCE @ S '' Done.'') = Inr JNull\<close>
proof -
  let ?raw = \<open>S ''Sure: '' @ FENCE @ S ''{"response": "use <think>"}'' @ FENCE @ S '' Done.''\<close>
  let ?t = \<open>S ''Sure: '' @ FENCE @ S ''{"response": "use''\<close>
  have blocks: "sub_think_blocks ?raw = ?raw"
    by (subst sub_think_blocks.simps) (simp add: FENCE_def BACKTICK_def)
  have tail: "sub_think_tail ?raw = ?t @ S '' ''"
    by (simp add: sub_think_tail_def FENCE_def BACKTICK_def)
  have t: "strip (strip_thinking_tags ?raw) = ?t"
    unfolding strip_thinking_tags_def blocks tail
    by (simp add: strip_def is_space_def FENCE_def BACKTICK_def)
  have fence: "re_search fence_match ?t = None"
    by (simp add: fence_match_def FENCE_def BACKTICK_def LBRACE_def RBRACE_def is_space_def)
  have brace: "brace_candidate ?t = None"
    by (simp add: brace_candidate_def FENCE_def BACKTICK_def LBRACE_def RBRACE_def DQUOTE_def
        BACKSLASH_def)
  have pattern: "pattern_fallback ?t = JNull"
    by (simp add: pattern_fallback_def field_match_def FENCE_def BACKTICK_def DQUOTE_def COLON_def
        is_space_def)
  show ?thesis
    unfolding extract_json_def t Let_def fence brace pattern
    by (simp add: try_loads_def loads_table_def FENCE_def BACKTICK_def)
qed

section \<open>Properties of tool dispatch\<close>

lemma failed_result_fields:
  "success (failed_result m) = False" "return_code (failed_result m) = 1"
  by (simp_all add: failed_result_def)

text \<open>
  Claim C8. For every action name and every value of \<open>parameters\<close>, \<open>dispatch_tool\<close>
  returns a \<open>ToolResult\<close> and raises nothing. A name that is not in the registry gives
  \<open>success = False\<close> with return code 1, without touching the world. For a registered
  name and a parameter dict, the handler is called with the items whose value is not \<open>None\<close>
  and with nothing else; what it returns is returned, and a \<open>TypeError\<close> or any other
  exception it raises becomes \<open>success = False\<close> with return code 1. Parameters that are
  not a dict give the same failure.
\<close>

theorem dispatch_tool_never_raises:
  "\<exists>result w'.
     dispatch_tool lb TOOL_MAP (JStr name) parameters w = (Inr result, w')
     \<and> (map_of TOOL_MAP name = None \<longrightarrow> success result = False \<and> return_code result = 1 \<and> w' = w)
     \<and> (\<forall>func items. map_of TOOL_MAP name = Some func \<and> parameters = JObj items \<longrightarrow>
           (let clean_params = filter (\<lambda>(k, v). v \<noteq> JNull) items in
            list_all (\<lambda>(k, v). v \<noteq> JNull) clean_params \<and>
            (case func clean_params w of
               (Returns r, w1) \<Rightarrow> result = r \<and> w' = w1
             | (RaisesTypeError e, w1) \<Rightarrow> success result = False \<and> return_code result = 1 \<and> w' = w1
             | (RaisesException e, w1) \<Rightarrow> success result = False \<and> return_code result = 1 \<and> w' = w1)))
     \<and> (\<forall>func. map_of TOOL_MAP name = Some func \<and> (\<forall>items. parameters \<noteq> JObj items) \<longrightarrow>
           success result = False \<and> return_code result = 1 \<and> w' = w)"
proof (cases "map_of TOOL_MAP name")
  case None
  then show ?thesis
    by (simp add: dispatch_tool_def failed_result_fields)
next
  case (Some func)
  show ?thesis
  proof (cases "\<exists>items. parameters = JObj items")
    case False
    then have "dispatch_tool lb TOOL_MAP (JStr name) parameters w =
        (Inr (failed_result (S ''Tool execution error: '' @ attribute_error parameters (S ''items''))), w)"
      using Some by (cases parameters) (simp_all add: dispatch_tool_def)
    with Some False show ?thesis
      by (simp add: failed_result_fields)
  next
    case True
    then obtain items where items: "parameters = JObj items" by blast
    define clean where "clean = filter (\<lambda>(k, v). v \<noteq> JNull) items"
    have clean: "list_all (\<lambda>(k, v). v \<noteq> JNull) clean"
      by (auto simp: clean_def list_all_iff)
    obtain out w1 where run: "func clean w = (out, w1)"
      by (cases "func clean w")
    show ?thesis
    proof (cases out)
      case (Returns r)
      with Some items run clean show ?thesis
        by (simp add: dispatch_tool_def clean_def[symmetric])
    next
      case (RaisesTypeError e)
      with Some items run clean show ?thesis
        by (simp add: dispatch_tool_def clean_def[symmetric] failed_result_fields)
    next
      case (RaisesException e)
      with Some items run clean show ?thesis
        by (simp add: dispatch_tool_def clean_def[symmetric] failed_result_fields)
    qed
  qed
qed

theorem dispatch_tool_never_raises_witness:
  "map_of [(S ''wait'', wait_handler)] (S ''reboot'') = None
   \<and> map_of [(S ''wait'', wait_handler)] (S ''wait'') = Some wait_handler
   \<and> (\<exists>result w'.
        dispatch_tool (example_lib (loads_table [])) [(S ''wait'', wait_handler)] (JStr (S ''reboot''))
          (JObj []) () = (Inr result, w')
        \<and> success result = False \<and> return_code result = 1)
   \<and> (\<exists>result w'.
        dispatch_tool (example_lib (loads_table [])) [(S ''wait'', wait_handler)] (JStr (S ''wait''))
          (JObj [(S ''seconds'', JInt 1), (S ''note'', JNull)]) () = (Inr result, w')
        \<and> success result = True)
   \<and> (\<exists>result w'.
        dispatch_tool (example_lib (loads_table [])) [(S ''wait'', wait_handler)] (JStr (S ''wait''))
          (JObj [(S ''minutes'', JInt 1)]) () = (Inr result, w')
        \<and> success result = False \<and> return_code result = 1)"
proof -
  let ?TM = "[(S ''wait'', wait_handler)]"
  have a: "map_of ?TM (S ''reboot'') = None" by simp
  have b: "map_of ?TM (S ''wait'') = Some wait_handler" by simp
  have c: "wait_handler (filter (\<lambda>(k, v). v \<noteq> JNull) [(S ''seconds'', JInt 1), (S ''note'', JNull)]) ()
      = (Returns \<lparr>success = True, stdout = S ''Waited'', stderr = [], return_code = 0,
                     image_path = [], file_path = []\<rparr>, ())"
    by (simp add: wait_handler_def)
  have d: "wait_handler (filter (\<lambda>(k, v). v \<noteq> JNull) [(S ''minutes'', JInt 1)]) ()
      = (RaisesTypeError (S ''wait() got an unexpected keyword argument''), ())"
    by (simp add: wait_handler_def)
  from dispatch_tool_never_raises[of "example_lib (loads_table [])" ?TM "S ''reboot''" "JObj []" "()"] a
  have 1: "\<exists>result w'.
        dispatch_tool (example_lib (loads_table [])) ?TM (JStr (S ''reboot'')) (JObj []) () = (Inr result, w')
        \<and> success result = False \<and> return_code result = 1"
    by blast
  from dispatch_tool_never_raises[of "example_lib (loads_table [])" ?TM "S ''wait''"
      "JObj [(S ''seconds'', JInt 1), (S ''note'', JNull)]" "()"] b c
  have 2: "\<exists>result w'.
        dispatch_tool (example_lib (loads_table [])) ?TM (JStr (S ''wait''))
          (JObj [(S ''seconds'', JInt 1), (S ''note'', JNull)]) () = (Inr result, w')
        \<and> success result = True"
    by (auto simp: Let_def)
  from dispatch_tool_never_raises[of "example_lib (loads_table [])" ?TM "S ''wait''"
      "JObj [(S ''minutes'', JInt 1)]" "()"] b d
  have 3: "\<exists>result w'.
        dispatch_tool (example_lib (loads_table [])) ?TM (JStr (S ''wait''))
          (JObj [(S ''minutes'', JInt 1)]) () = (Inr result, w')
        \<and> success result = False \<and> return_code result = 1"
    by (auto simp: Let_def)
  from a b 1 2 3 show ?thesis by blast
qed

section \<open>Properties of the decision controller\<close>

lemma map_of_setdefault:
  "map_of (setdefault k v d) k' = (if k' = k \<and> map_of d k = None then Some v else map_of d k')"
  by (auto simp: setdefault_def dict_has_def map_add_def split: option.splits)

lemma filled_from_fill_defaults: "filled_from d (fill_defaults d)"
  unfolding filled_from_def fill_defaults_def decision_defaults_def
  by (auto simp: map_of_setdefault split: option.splits)

lemma filled_from_full:
  assumes "filled_from d dec"
  shows "list_all (dict_has dec) decision_fields"
  using assms
  unfolding filled_from_def decision_fields_def decision_defaults_def dict_has_def
  by (auto split: option.splits)

lemma plain_decision_full: "list_all (dict_has (plain_decision t r)) decision_fields"
  by (simp add: plain_decision_def decision_fields_def dict_has_def)

lemma plain_decision_typed: "well_typed_decision (plain_decision t r)"
  by (simp add: plain_decision_def well_typed_decision_def)

lemma plain_decision_get:
  "dict_get (plain_decision t r) (S ''action'') x = JStr (S ''none'')"
  "dict_get (plain_decision t r) (S ''continue'') x = JBool False"
  "dict_get (plain_decision t r) (S ''response'') x = JStr r"
  "dict_get (plain_decision t r) (S ''thought'') x = JStr t"
  "dict_get (plain_decision t r) (S ''parameters'') x = JObj []"
  by (simp_all add: plain_decision_def dict_get_def)

lemma attempt_try_Inl:
  "attempt_try cfg lb attempt reply = Inl e \<longleftrightarrow> attempt_raises lb reply e"
  by (auto simp: attempt_try_def attempt_raises_def Let_def split: sum.splits json.splits)

lemma attempt_try_Next:
  "attempt_try cfg lb attempt reply = Inr Next \<Longrightarrow> attempt < MAX_RETRIES cfg - 1"
  by (auto simp: attempt_try_def Let_def split: sum.splits json.splits if_splits)

lemma attempt_try_Done_cases:
  assumes "attempt_try cfg lb attempt reply = Inr (Done dec)"
  shows "(\<exists>content d. reply = Inr content
            \<and> extract_json (json_loads lb) (content_or_empty content) = Inr (JObj d)
            \<and> dec = fill_defaults d)
         \<or> (\<exists>content. reply = Inr content
            \<and> extract_json (json_loads lb) (content_or_empty content) = Inr JNull
            \<and> MAX_RETRIES cfg - 1 \<le> attempt
            \<and> dec = unformatted_decision (content_or_empty content))"
  using assms
  by (auto simp: attempt_try_def Let_def split: sum.splits json.splits if_splits)

lemma unformatted_decision_typed: "well_typed_decision (unformatted_decision raw)"
  by (simp add: unformatted_decision_def Let_def plain_decision_typed)

lemma think_attempt_served:
  assumes "think_attempt cfg env messages T attempt w = ((res, call), w')"
  shows "served env call"
proof -
  obtain reply w1 where r: "chat_completion env (attempt_request cfg messages T attempt) w = (reply, w1)"
    by (cases "chat_completion env (attempt_request cfg messages T attempt) w")
  with assms have "call = (attempt_request cfg messages T attempt, reply)"
    by (simp add: think_attempt_def Let_def)
  with r show ?thesis
    unfolding served_def by (intro exI[of _ w]) simp
qed

lemma think_attempt_Next:
  assumes run: "think_attempt cfg env messages T attempt w = ((Next, call), w')"
    and lt: "attempt < MAX_RETRIES cfg"
  shows "attempt + 1 < MAX_RETRIES cfg"
proof -
  obtain reply w1 where r: "chat_completion env (attempt_request cfg messages T attempt) w = (reply, w1)"
    by (cases "chat_completion env (attempt_request cfg messages T attempt) w")
  show ?thesis
  proof (cases "attempt_try cfg (lib env) attempt reply")
    case (Inl e)
    with run r have "attempt \<noteq> MAX_RETRIES cfg - 1"
      by (auto simp: think_attempt_def Let_def split: if_splits)
    with lt show ?thesis by simp
  next
    case (Inr res)
    with run r have "res = Next" by (simp add: think_attempt_def Let_def)
    with Inr attempt_try_Next[of cfg "lib env" attempt reply] show ?thesis by simp
  qed
qed

lemma think_attempt_Done_outcome:
  assumes run: "think_attempt cfg env messages T attempt w = ((Done dec, call), w')"
    and lt: "attempt < MAX_RETRIES cfg" and len: "int (length calls) = attempt"
  shows "loop_outcome cfg (lib env) (calls @ [call]) dec"
proof -
  obtain reply w1 where r: "chat_completion env (attempt_request cfg messages T attempt) w = (reply, w1)"
    by (cases "chat_completion env (attempt_request cfg messages T attempt) w")
  define request where "request = attempt_request cfg messages T attempt"
  from run r have call: "call = (request, reply)"
    by (simp add: think_attempt_def Let_def request_def)
  show ?thesis
  proof (cases "attempt_try cfg (lib env) attempt reply")
    case (Inl e)
    with run r have last: "attempt = MAX_RETRIES cfg - 1"
      and dec: "dec = plain_decision (S ''Error occurred: '' @ e)
                   (WARNING_SIGN @ S '' I encountered an error while processing: '' @ e)"
      by (auto simp: think_attempt_def Let_def split: if_splits)
    from Inl have raises: "attempt_raises (lib env) reply e"
      by (simp add: attempt_try_Inl)
    from last len have full: "int (length (calls @ [call])) = MAX_RETRIES cfg" by simp
    have typed: "well_typed_decision dec"
      unfolding dec by (rule plain_decision_typed)
    have "\<exists>earlier request reply e.
         calls @ [call] = earlier @ [(request, reply)]
         \<and> int (length (calls @ [call])) = MAX_RETRIES cfg
         \<and> attempt_raises (lib env) reply e
         \<and> dec = plain_decision (S ''Error occurred: '' @ e)
                   (WARNING_SIGN @ S '' I encountered an error while processing: '' @ e)
         \<and> well_typed_decision dec"
      using call full raises dec typed
      by (intro exI[of _ calls] exI[of _ request] exI[of _ reply] exI[of _ e] conjI)
         (simp, assumption+)
    then show ?thesis unfolding loop_outcome_def by (intro disjI2)
  next
    case (Inr res)
    with run r have "attempt_try cfg (lib env) attempt reply = Inr (Done dec)"
      by (simp add: think_attempt_def Let_def)
    from attempt_try_Done_cases[OF this] show ?thesis
    proof
      assume "\<exists>content d. reply = Inr content
            \<and> extract_json (json_loads (lib env)) (content_or_empty content) = Inr (JObj d)
            \<and> dec = fill_defaults d"
      then obtain content d where c: "reply = Inr content"
          and x: "extract_json (json_loads (lib env)) (content_or_empty content) = Inr (JObj d)"
          and d: "dec = fill_defaults d"
        by blast
      have f: "filled_from d dec"
        unfolding d by (rule filled_from_fill_defaults)
      have "\<exists>earlier request content d.
         calls @ [call] = earlier @ [(request, Inr content)]
         \<and> extract_json (json_loads (lib env)) (content_or_empty content) = Inr (JObj d)
         \<and> filled_from d dec"
        using call c x f
        by (intro exI[of _ calls] exI[of _ request] exI[of _ content] exI[of _ d] conjI)
           (simp, assumption+)
      then show ?thesis unfolding loop_outcome_def by (intro disjI1)
    next
      assume "\<exists>content. reply = Inr content
            \<and> extract_json (json_loads (lib env)) (content_or_empty content) = Inr JNull
            \<and> MAX_RETRIES cfg - 1 \<le> attempt
            \<and> dec = unformatted_decision (content_or_empty content)"
      then obtain content where c: "reply = Inr content"
          and x: "extract_json (json_loads (lib env)) (content_or_empty content) = Inr JNull"
          and last: "MAX_RETRIES cfg - 1 \<le> attempt"
          and d: "dec = unformatted_decision (content_or_empty content)"
        by blast
      from last lt len have full: "int (length (calls @ [call])) = MAX_RETRIES cfg" by simp
      have typed: "well_typed_decision dec"
        unfolding d by (rule unformatted_decision_typed)
      have "\<exists>earlier request content.
         calls @ [call] = earlier @ [(request, Inr content)]
         \<and> int (length (calls @ [call])) = MAX_RETRIES cfg
         \<and> extract_json (json_loads (lib env)) (content_or_empty content) = Inr JNull
         \<and> dec = unformatted_decision (content_or_empty content)
         \<and> well_typed_decision dec"
        using call c full x d typed
        by (intro exI[of _ calls] exI[of _ request] exI[of _ content] conjI)
           (simp, assumption+)
      then show ?thesis unfolding loop_outcome_def by (intro disjI2 disjI1)
    qed
  qed
qed

lemma think_attempts_outcome:
  assumes "think_attempts cfg env messages T attempt calls w = (dec, calls', w')"
    and "attempt < MAX_RETRIES cfg" and "int (length calls) = attempt"
    and "list_all (served env) calls"
  shows "list_all (served env) calls' \<and> loop_outcome cfg (lib env) calls' dec"
  using assms
proof (induction cfg env messages T attempt calls w rule: think_attempts.induct)
  case (1 cfg env messages T attempt calls w)
  obtain res call w1 where step: "think_attempt cfg env messages T attempt w = ((res, call), w1)"
    by (metis prod.collapse)
  from think_attempt_served[OF step] "1.prems"(4)
  have served: "list_all (served env) (calls @ [call])" by simp
  show ?case
  proof (cases res)
    case (Done d)
    with step "1.prems"(1,2) have "dec = d" "calls' = calls @ [call]"
      by (subst (asm) think_attempts.simps, simp)+
    with Done step think_attempt_Done_outcome[of cfg env messages T attempt w d call w1 calls]
      "1.prems"(2,3) served
    show ?thesis by simp
  next
    case Next
    with step "1.prems"(1,2)
    have rec: "think_attempts cfg env messages T (attempt + 1) (calls @ [call]) w1 = (dec, calls', w')"
      by (subst (asm) think_attempts.simps) simp
    from Next step think_attempt_Next[of cfg env messages T attempt w call w1] "1.prems"(2)
    have lt: "attempt + 1 < MAX_RETRIES cfg" by simp
    from "1.prems"(3) have len: "int (length (calls @ [call])) = attempt + 1" by simp
    from "1.IH"[OF "1.prems"(2) step[symmetric] _ _ rec lt len served] Next show ?thesis
      by simp
  qed
qed

lemma loop_outcome_full:
  assumes "loop_outcome cfg lb calls dec"
  shows "list_all (dict_has dec) decision_fields"
  using assms unfolding loop_outcome_def
  by (auto simp: filled_from_full plain_decision_full unformatted_decision_def Let_def)

lemma disj_weaken: "A \<or> B \<or> C \<Longrightarrow> A \<or> B \<or> C \<or> D"
  by blast

text \<open>
  Claim C3, as the code has it. \<open>think\<close> raises only what the context assembly at its
  start raised, before any call of the service; no exception raised inside the retry loop
  leaves it. Every dict it returns holds all five fields, every logged call is a reply of
  the service to the request made, and the dict is told by the last call:
  \<^item> the reply was extracted to a dict: each field the model supplied is kept as it is,
    whatever its type, and each missing field has its default (thought \<open>""\<close>, action
    \<open>"none"\<close>, parameters \<open>{}\<close>, response \<open>"I processed your request."\<close>, continue \<open>False\<close>);
  \<^item> the reply of attempt number \<open>MAX_RETRIES\<close> was extracted to \<open>None\<close>: the dict is the
    one wrapping the raw text, and its five fields have their types;
  \<^item> attempt number \<open>MAX_RETRIES\<close> raised (the service, \<open>_extract_json\<close>, or \<open>.get\<close> on a
    value that is not a dict): the dict is the error dict, and its five fields have their
    types;
  \<^item> no call was made, \<open>MAX_RETRIES\<close> being 0 or less: the dict is the one behind the
    loop, and its five fields have their types.
\<close>

theorem think_decision_complete:
  "case think cfg env user_message prior w of
     (Inl e, calls, w') \<Rightarrow> fst (build_messages env user_message prior w) = Inl e \<and> calls = []
   | (Inr dec, calls, w') \<Rightarrow>
       list_all (dict_has dec) decision_fields
       \<and> list_all (served env) calls
       \<and> ((\<exists>earlier request content d.
              calls = earlier @ [(request, Inr content)]
              \<and> extract_json (json_loads (lib env)) (content_or_empty content) = Inr (JObj d)
              \<and> filled_from d dec)
          \<or> (\<exists>earlier request content.
              calls = earlier @ [(request, Inr content)]
              \<and> int (length calls) = MAX_RETRIES cfg
              \<and> extract_json (json_loads (lib env)) (content_or_empty content) = Inr JNull
              \<and> dec = unformatted_decision (content_or_empty content)
              \<and> well_typed_decision dec)
          \<or> (\<exists>earlier request reply e.
              calls = earlier @ [(request, reply)]
              \<and> int (length calls) = MAX_RETRIES cfg
              \<and> attempt_raises (lib env) reply e
              \<and> dec = plain_decision (S ''Error occurred: '' @ e)
                        (WARNING_SIGN @ S '' I encountered an error while processing: '' @ e)
              \<and> well_typed_decision dec)
          \<or> (calls = [] \<and> MAX_RETRIES cfg \<le> 0
              \<and> dec = plain_decision (S ''Unexpected flow.'')
                        (WARNING_SIGN @ S '' Something went wrong. Please try again.'')
              \<and> well_typed_decision dec))"
proof (cases "build_messages env user_message prior w")
  case (Pair r w0)
  show ?thesis
  proof (cases r)
    case (Inl e)
    with Pair show ?thesis by (simp add: think_def)
  next
    case (Inr messages)
    define T where "T = base_temperature cfg (classify_task (str_lower (lib env)) user_message)"
    obtain dec calls w' where run: "think_attempts cfg env messages T 0 [] w0 = (dec, calls, w')"
      by (metis prod.collapse)
    have result: "think cfg env user_message prior w = (Inr dec, calls, w')"
      using Pair Inr run by (simp add: think_def Let_def T_def)
    show ?thesis
    proof (cases "0 < MAX_RETRIES cfg")
      case True
      from think_attempts_outcome[OF run True] 
      have served: "list_all (served env) calls" and out: "loop_outcome cfg (lib env) calls dec"
        by simp_all
      from loop_outcome_full[OF out] have full: "list_all (dict_has dec) decision_fields" .
      from out have "(\<exists>earlier request content d.
              calls = earlier @ [(request, Inr content)]
              \<and> extract_json (json_loads (lib env)) (content_or_empty content) = Inr (JObj d)
              \<and> filled_from d dec)
          \<or> (\<exists>earlier request content.
              calls = earlier @ [(request, Inr content)]
              \<and> int (length calls) = MAX_RETRIES cfg
              \<and> extract_json (json_loads (lib env)) (content_or_empty content) = Inr JNull
              \<and> dec = unformatted_decision (content_or_empty content)
              \<and> well_typed_decision dec)
          \<or> (\<exists>earlier request reply e.
              calls = earlier @ [(request, reply)]
              \<and> int (length calls) = MAX_RETRIES cfg
              \<and> attempt_raises (lib env) reply e
              \<and> dec = plain_decision (S ''Error occurred: '' @ e)
                        (WARNING_SIGN @ S '' I encountered an error while processing: '' @ e)
              \<and> well_typed_decision dec)
          \<or> (calls = [] \<and> MAX_RETRIES cfg \<le> 0
              \<and> dec = plain_decision (S ''Unexpected flow.'')
                        (WARNING_SIGN @ S '' Something went wrong. Please try again.'')
              \<and> well_typed_decision dec)"
        unfolding loop_outcome_def by (rule disj_weaken)
      with full served show ?thesis
        unfolding result by simp
    next
      case False
      with run have "dec = plain_decision (S ''Unexpected flow.'')
                        (WARNING_SIGN @ S '' Something went wrong. Please try again.'')"
          and "calls = []"
        by (subst (asm) think_attempts.simps, simp)+
      with False show ?thesis
        unfolding result by (simp add: plain_decision_full plain_decision_typed)
    qed
  qed
qed


text \<open>
  The claim as stated fails in "typed correctly": the reply \<^verbatim>\<open>{"action": 5}\<close> is returned
  with the number 5 as its action.
\<close>

theorem think_untyped_counterexample:
  \<open>fst (think CONFIG
          (fixed_reply_env (loads_table [(S ''{"action": 5}'', JObj [(S ''action'', JInt 5)])])
             (Inr (Some (S ''{"action": 5}''))))
          (S ''hi'') None ())
     = Inr [(S ''action'', JInt 5), (S ''thought'', JStr []), (S ''parameters'', JObj []),
            (S ''response'', JStr (S ''I processed your request.'')), (S ''continue'', JBool False)]
   \<and> \<not> well_typed_decision
        [(S ''action'', JInt 5), (S ''thought'', JStr []), (S ''parameters'', JObj []),
         (S ''response'', JStr (S ''I processed your request.'')), (S ''continue'', JBool False)]\<close>
proof -
  define raw where \<open>raw = S ''{"action": 5}''\<close>
  define loads where "loads = loads_table [(raw, JObj [(S ''action'', JInt 5)])]"
  define env where "env = fixed_reply_env loads (Inr (Some raw))"
  have x: "extract_json loads raw = Inr (JObj [(S ''action'', JInt 5)])"
    by (simp add: loads_def raw_def extract_json_def strip_thinking_tags_def sub_think_tail_def
        sub_think_blocks.simps strip_def is_space_def try_loads_def loads_table_def)
  have cc: "chat_completion env request w = (Inr (Some raw), w)" for request w
    by (simp add: env_def fixed_reply_env_def)
  have lb: "lib env = example_lib loads"
    by (simp add: env_def fixed_reply_env_def)
  have t: "attempt_try CONFIG (example_lib loads) 0 (Inr (Some raw))
      = Inr (Done (fill_defaults [(S ''action'', JInt 5)]))"
    unfolding attempt_try_def content_or_empty_def
    by (simp add: example_lib_def x)
  have a: "think_attempt CONFIG env messages T 0 ()
        = ((Done (fill_defaults [(S ''action'', JInt 5)]),
            (attempt_request CONFIG messages T 0, Inr (Some raw))), ())"
    for messages T
    unfolding think_attempt_def Let_def
    by (simp add: cc lb t)
  have l: "fst (think_attempts CONFIG env messages T 0 [] ()) = fill_defaults [(S ''action'', JInt 5)]"
    for messages T
  proof -
    have "MAX_RETRIES CONFIG = 3" by (simp add: CONFIG_def)
    then show ?thesis by (subst think_attempts.simps) (simp add: a)
  qed
  have bm: "build_messages env u c w = (Inr [(S ''user'', JStr u)], w)" for u c w
    by (simp add: env_def fixed_reply_env_def)
  have "fst (think CONFIG env (S ''hi'') None ()) = Inr (fill_defaults [(S ''action'', JInt 5)])"
    unfolding think_def Let_def bm
    using l[of "[(S ''user'', JStr (S ''hi''))]"] by (simp add: case_prod_beta)
  then show ?thesis
    unfolding env_def loads_def raw_def
    by (simp add: fill_defaults_def setdefault_def dict_has_def well_typed_decision_def)
qed

lemma attempt_temperature_mono:
  assumes "0 < j" "j \<le> k"
  shows "attempt_temperature T k \<le> attempt_temperature T j"
proof -
  have "(2 / 10) * real_of_int j \<le> (2 / 10) * real_of_int k"
    using assms by simp
  then show ?thesis
    using assms by (simp add: attempt_temperature_def max_def)
qed

lemma attempt_temperature_mono0:
  assumes "1 / 10 \<le> T" "0 \<le> j" "j \<le> k"
  shows "attempt_temperature T k \<le> attempt_temperature T j"
proof (cases "j = 0")
  case True
  then show ?thesis using assms by (simp add: attempt_temperature_def max_def)
next
  case False
  with assms attempt_temperature_mono[of j k T] show ?thesis by simp
qed

lemma think_attempts_unparseable:
  assumes unparseable: "\<forall>request w1. \<exists>content w2. chat_completion env request w1 = (Inr content, w2)
      \<and> extract_json (json_loads (lib env)) (content_or_empty content) = Inr JNull"
  shows "attempt < MAX_RETRIES cfg \<Longrightarrow>
     \<exists>new content w'.
       think_attempts cfg env messages T attempt acc w
         = (unformatted_decision (content_or_empty content), acc @ new, w')
       \<and> int (length new) = MAX_RETRIES cfg - attempt
       \<and> (\<forall>i < length new. fst (new ! i) = attempt_request cfg messages T (attempt + int i))
       \<and> (\<forall>i < length new. \<exists>w1 w2. chat_completion env (fst (new ! i)) w1 = (snd (new ! i), w2))
       \<and> snd (last new) = Inr content"
proof (induction "nat (MAX_RETRIES cfg - attempt)" arbitrary: attempt acc w)
  case 0
  then show ?case by simp
next
  case (Suc n)
  let ?req = "attempt_request cfg messages T attempt"
  from unparseable obtain content w1 where
    reply: "chat_completion env ?req w = (Inr content, w1)"
    and null: "extract_json (json_loads (lib env)) (content_or_empty content) = Inr JNull"
    by blast
  show ?case
  proof (cases "attempt < MAX_RETRIES cfg - 1")
    case False
    with Suc.prems have last: "attempt = MAX_RETRIES cfg - 1" by simp
    have step: "think_attempt cfg env messages T attempt w
        = ((Done (unformatted_decision (content_or_empty content)), (?req, Inr content)), w1)"
      using reply null last by (simp add: think_attempt_def attempt_try_def Let_def)
    have "think_attempts cfg env messages T attempt acc w
        = (unformatted_decision (content_or_empty content), acc @ [(?req, Inr content)], w1)"
      using Suc.prems step by (subst think_attempts.simps) simp
    moreover have "int (length [(?req, Inr content :: llm_reply)]) = MAX_RETRIES cfg - attempt"
      using last by simp
    moreover have "\<exists>wa wb. chat_completion env ?req wa = (Inr content, wb)"
      using reply by blast
    ultimately show ?thesis
      by (intro exI[of _ "[(?req, Inr content)]"] exI[of _ content] exI[of _ w1]) simp
  next
    case True
    have step: "think_attempt cfg env messages T attempt w = ((Next, (?req, Inr content)), w1)"
      using reply null True by (simp add: think_attempt_def attempt_try_def Let_def)
    have more: "attempt + 1 < MAX_RETRIES cfg" using True by simp
    have n: "n = nat (MAX_RETRIES cfg - (attempt + 1))" using Suc.hyps(2) by simp
    from Suc.hyps(1)[OF n more, of "acc @ [(?req, Inr content)]" w1]
    obtain new content' w' where rec:
      "think_attempts cfg env messages T (attempt + 1) (acc @ [(?req, Inr content)]) w1
         = (unformatted_decision (content_or_empty content'), (acc @ [(?req, Inr content)]) @ new, w')"
      "int (length new) = MAX_RETRIES cfg - (attempt + 1)"
      "\<forall>i < length new. fst (new ! i) = attempt_request cfg messages T (attempt + 1 + int i)"
      "\<forall>i < length new. \<exists>wa wb. chat_completion env (fst (new ! i)) wa = (snd (new ! i), wb)"
      "snd (last new) = Inr content'"
      by auto
    have unfold: "think_attempts cfg env messages T attempt acc w
        = think_attempts cfg env messages T (attempt + 1) (acc @ [(?req, Inr content)]) w1"
      using Suc.prems step by (subst think_attempts.simps) simp
    have nonempty: "new \<noteq> []" using rec(2) more by auto
    have nth: "\<forall>i < length ((?req, Inr content) # new).
        fst (((?req, Inr content) # new) ! i) = attempt_request cfg messages T (attempt + int i)"
    proof (intro allI impI)
      fix i assume "i < length ((?req, Inr content) # new)"
      then show "fst (((?req, Inr content) # new) ! i) = attempt_request cfg messages T (attempt + int i)"
        using rec(3) by (cases i) (auto simp: algebra_simps)
    qed
    have link: "\<forall>i < length ((?req, Inr content) # new).
        \<exists>wa wb. chat_completion env (fst (((?req, Inr content) # new) ! i)) wa
           = (snd (((?req, Inr content) # new) ! i), wb)"
    proof (intro allI impI)
      fix i assume "i < length ((?req, Inr content) # new)"
      then show "\<exists>wa wb. chat_completion env (fst (((?req, Inr content) # new) ! i)) wa
           = (snd (((?req, Inr content) # new) ! i), wb)"
        using rec(4) reply by (cases i) auto
    qed
    show ?thesis
      using unfold rec(1,2,5) nth link nonempty
      by (intro exI[of _ "(?req, Inr content) # new"] exI[of _ content'] exI[of _ w']) simp
  qed
qed

lemma unformatted_decision_get:
  "dict_get (unformatted_decision raw) (S ''action'') x = JStr (S ''none'')"
  "dict_get (unformatted_decision raw) (S ''continue'') x = JBool False"
  "dict_get (unformatted_decision raw) (S ''response'') x =
     JStr (if strip (strip_thinking_tags raw) \<noteq> [] then strip (strip_thinking_tags raw)
           else S ''I processed your request but couldn'' @ [SQUOTE] @
                S ''t format the response properly.'')"
  by (simp_all add: unformatted_decision_def Let_def plain_decision_def dict_get_def)

lemma attempt_request_fields:
  "req_temperature (attempt_request cfg messages T (int k))
     = (if k = 0 then T else max (1 / 10) (T - (2 / 10) * real k))"
  "req_messages (attempt_request cfg messages T (int k))
     = messages @ (if k = 0 then [] else [(S ''user'', JStr corrective_instruction)])"
  by (simp_all add: attempt_request_def attempt_temperature_def attempt_extra_messages_def)

text \<open>
  Claim C4, as the code has it. Suppose the context is assembled, every model call
  returns text from which nothing is extracted, and \<open>MAX_RETRIES\<close> is at least 1. Then
  \<open>think\<close> makes exactly \<open>MAX_RETRIES\<close> service calls. Call 0 runs at the base temperature
  with the assembled messages; call \<open>k > 0\<close> runs at \<open>max(0.1, base - 0.2 k)\<close> with the
  corrective instruction appended. The temperatures do not increase from call 1 on, and
  from call 0 on when the base temperature is at least 0.1. The returned decision has
  action \<open>none\<close>, continue \<open>False\<close>, and as its response the last reply with the reasoning
  tags stripped if that is not empty, else the fixed fallback text.
\<close>

theorem think_unparseable_replies:
  assumes assembled: "build_messages env user_message prior w = (Inr messages, w0)"
    and unparseable: "\<forall>request w1. \<exists>content w2.
        chat_completion env request w1 = (Inr content, w2)
        \<and> extract_json (json_loads (lib env)) (content_or_empty content) = Inr JNull"
    and retries: "0 < MAX_RETRIES cfg"
    and base: "base = base_temperature cfg (classify_task (str_lower (lib env)) user_message)"
  shows "\<exists>dec calls w' content.
      think cfg env user_message prior w = (Inr dec, calls, w')
    \<and> int (length calls) = MAX_RETRIES cfg
    \<and> (\<forall>k < length calls.
         req_temperature (fst (calls ! k))
           = (if k = 0 then base else max (1 / 10) (base - (2 / 10) * real k))
         \<and> req_messages (fst (calls ! k))
           = messages @ (if k = 0 then [] else [(S ''user'', JStr corrective_instruction)]))
    \<and> (\<forall>j k. 0 < j \<and> j \<le> k \<and> k < length calls
          \<longrightarrow> req_temperature (fst (calls ! k)) \<le> req_temperature (fst (calls ! j)))
    \<and> (1 / 10 \<le> base \<longrightarrow>
          (\<forall>j k. j \<le> k \<and> k < length calls
             \<longrightarrow> req_temperature (fst (calls ! k)) \<le> req_temperature (fst (calls ! j))))
    \<and> (\<forall>k < length calls. \<exists>w1 w2. chat_completion env (fst (calls ! k)) w1 = (snd (calls ! k), w2))
    \<and> snd (last calls) = Inr content
    \<and> dict_get dec (S ''action'') JNull = JStr (S ''none'')
    \<and> dict_get dec (S ''continue'') JNull = JBool False
    \<and> dict_get dec (S ''response'') JNull =
        JStr (if strip (strip_thinking_tags (content_or_empty content)) \<noteq> []
              then strip (strip_thinking_tags (content_or_empty content))
              else S ''I processed your request but couldn'' @ [SQUOTE] @
                   S ''t format the response properly.'')"
proof -
  from think_attempts_unparseable[OF unparseable retries, of messages base "[]" w0]
  obtain calls content w' where run:
    "think_attempts cfg env messages base 0 [] w0
       = (unformatted_decision (content_or_empty content), calls, w')"
    and len: "int (length calls) = MAX_RETRIES cfg"
    and reqs: "\<forall>i < length calls. fst (calls ! i) = attempt_request cfg messages base (int i)"
    and link: "\<forall>i < length calls. \<exists>w1 w2. chat_completion env (fst (calls ! i)) w1 = (snd (calls ! i), w2)"
    and last: "snd (last calls) = Inr content"
    by auto
  have result: "think cfg env user_message prior w
      = (Inr (unformatted_decision (content_or_empty content)), calls, w')"
    using assembled run by (simp add: think_def Let_def base)
  have temps: "req_temperature (fst (calls ! k)) = attempt_temperature base (int k)"
    if "k < length calls" for k
    using reqs that by (simp add: attempt_request_def)
  have fields: "\<forall>k < length calls.
         req_temperature (fst (calls ! k))
           = (if k = 0 then base else max (1 / 10) (base - (2 / 10) * real k))
         \<and> req_messages (fst (calls ! k))
           = messages @ (if k = 0 then [] else [(S ''user'', JStr corrective_instruction)])"
    using reqs attempt_request_fields by simp
  have mono: "\<forall>j k. 0 < j \<and> j \<le> k \<and> k < length calls
          \<longrightarrow> req_temperature (fst (calls ! k)) \<le> req_temperature (fst (calls ! j))"
  proof (intro allI impI)
    fix j k assume jk: "0 < j \<and> j \<le> k \<and> k < length calls"
    then have "attempt_temperature base (int k) \<le> attempt_temperature base (int j)"
      by (intro attempt_temperature_mono) simp_all
    with jk temps[of j] temps[of k]
    show "req_temperature (fst (calls ! k)) \<le> req_temperature (fst (calls ! j))" by simp
  qed
  have mono0: "1 / 10 \<le> base \<longrightarrow>
          (\<forall>j k. j \<le> k \<and> k < length calls
             \<longrightarrow> req_temperature (fst (calls ! k)) \<le> req_temperature (fst (calls ! j)))"
  proof (intro allI impI)
    fix j k assume b: "1 / 10 \<le> base" and jk: "j \<le> k \<and> k < length calls"
    then have "attempt_temperature base (int k) \<le> attempt_temperature base (int j)"
      by (intro attempt_temperature_mono0) simp_all
    with jk temps[of j] temps[of k]
    show "req_temperature (fst (calls ! k)) \<le> req_temperature (fst (calls ! j))" by simp
  qed
  show ?thesis
    using result len fields mono mono0 link last unformatted_decision_get
    by (intro exI[of _ "unformatted_decision (content_or_empty content)"] exI[of _ calls]
        exI[of _ w'] exI[of _ content]) (simp only: simp_thms)
qed

lemma extract_json_hello: "extract_json (loads_table []) (S ''hello'') = Inr JNull"
  by (simp add: extract_json_def strip_thinking_tags_def sub_think_tail_def sub_think_blocks.simps
      strip_def is_space_def fence_match_def FENCE_def BACKTICK_def brace_candidate_def LBRACE_def
      pattern_fallback_def field_match_def DQUOTE_def try_loads_def loads_table_def)

lemma classify_run_it: "classify_task ascii_lower (S ''run it'') = S ''precise''"
  by (simp add: classify_task_def ascii_lower_def creative_signals_def precise_signals_def)

lemma hello_env_unparseable:
  "\<forall>request w1. \<exists>content w2.
     chat_completion (fixed_reply_env (loads_table []) (Inr (Some (S ''hello'')))) request w1 = (Inr content, w2)
     \<and> extract_json (json_loads (lib (fixed_reply_env (loads_table []) (Inr (Some (S ''hello''))))))
         (content_or_empty content) = Inr JNull"
  using extract_json_hello
  by (simp add: fixed_reply_env_def example_lib_def content_or_empty_def)


lemma three_requests:
  assumes "int (length calls) = 3"
    and "\<forall>i < length calls. fst (calls ! i) = f (int i)"
  shows "map fst calls = [f 0, f 1, f 2]"
proof (rule nth_equalityI)
  show "length (map fst calls) = length [f 0, f 1, f 2]" using assms(1) by simp
next
  fix i assume "i < length (map fst calls)"
  then have i: "i < 3" using assms(1) by simp
  then have "i = 0 \<or> i = 1 \<or> i = 2" by auto
  with assms i show "map fst calls ! i = [f 0, f 1, f 2] ! i"
    by auto
qed

text \<open>
  The claim as stated fails in "non-increasing": the floor lifts a base temperature below
  0.1 on the first retry. With \<open>PRECISE_TEMPERATURE = 0\<close> and a message classified as
  precise, the three calls run at 0, 0.1 and 0.1.
\<close>

theorem think_temperature_counterexample:
  "map (req_temperature \<circ> fst)
     (fst (snd (think (CONFIG\<lparr>PRECISE_TEMPERATURE := 0\<rparr>)
                  (fixed_reply_env (loads_table []) (Inr (Some (S ''hello''))))
                  (S ''run it'') None ())))
   = [0, 1 / 10, 1 / 10]"
proof -
  define env where "env = fixed_reply_env (loads_table []) (Inr (Some (S ''hello'')))"
  define cfg where "cfg = CONFIG\<lparr>PRECISE_TEMPERATURE := 0\<rparr>"
  define messages where "messages = [(S ''user'', JStr (S ''run it''))]"
  have retries: "0 < MAX_RETRIES cfg" and three: "MAX_RETRIES cfg = 3"
    by (simp_all add: cfg_def CONFIG_def)
  have base: "base_temperature cfg (classify_task (str_lower (lib env)) (S ''run it'')) = 0"
    using classify_run_it
    by (simp add: env_def fixed_reply_env_def example_lib_def base_temperature_def cfg_def)
  from think_attempts_unparseable[OF hello_env_unparseable[folded env_def] retries,
      of messages 0 "[]" "()"]
  obtain dec calls w' where run: "think_attempts cfg env messages 0 0 [] () = (dec, calls, w')"
    and len: "int (length calls) = 3"
    and reqs: "\<forall>i < length calls. fst (calls ! i) = attempt_request cfg messages 0 (int i)"
    using three by auto
  have "think cfg env (S ''run it'') None () = (Inr dec, calls, w')"
    unfolding think_def Let_def base
    using run by (simp add: env_def[symmetric] messages_def[symmetric])
       (simp add: env_def fixed_reply_env_def messages_def)
  then have calls: "fst (snd (think cfg env (S ''run it'') None ())) = calls" by simp
  have "map fst calls = [attempt_request cfg messages 0 0, attempt_request cfg messages 0 1,
      attempt_request cfg messages 0 2]"
    using three_requests[OF len, of "attempt_request cfg messages 0"] reqs by simp
  then have "map (req_temperature \<circ> fst) calls = [0, 1 / 10, 1 / 10]"
    by (simp add: attempt_request_def attempt_temperature_def flip: map_map)
  with calls show ?thesis by (simp add: env_def cfg_def)
qed


theorem think_unparseable_replies_witness:
  "build_messages (fixed_reply_env (loads_table []) (Inr (Some (S ''hello'')))) (S ''run it'') None ()
     = (Inr [(S ''user'', JStr (S ''run it''))], ())
   \<and> (\<forall>request w1. \<exists>content w2.
         chat_completion (fixed_reply_env (loads_table []) (Inr (Some (S ''hello'')))) request w1
           = (Inr content, w2)
         \<and> extract_json (json_loads (lib (fixed_reply_env (loads_table []) (Inr (Some (S ''hello''))))))
             (content_or_empty content) = Inr JNull)
   \<and> 0 < MAX_RETRIES CONFIG
   \<and> 1 / 5 = base_temperature CONFIG
        (classify_task (str_lower (lib (fixed_reply_env (loads_table []) (Inr (Some (S ''hello''))))))
           (S ''run it''))
   \<and> (\<exists>dec calls w'.
        think CONFIG (fixed_reply_env (loads_table []) (Inr (Some (S ''hello'')))) (S ''run it'') None ()
          = (Inr dec, calls, w')
        \<and> length calls = 3
        \<and> map (req_temperature \<circ> fst) calls = [1 / 5, 1 / 10, 1 / 10]
        \<and> dict_get dec (S ''action'') JNull = JStr (S ''none'')
        \<and> dict_get dec (S ''continue'') JNull = JBool False
        \<and> dict_get dec (S ''response'') JNull = JStr (S ''hello''))"
proof -
  define env where "env = fixed_reply_env (loads_table []) (Inr (Some (S ''hello'')))"
  have h1: "build_messages env (S ''run it'') None () = (Inr [(S ''user'', JStr (S ''run it''))], ())"
    by (simp add: env_def fixed_reply_env_def)
  note h2 = hello_env_unparseable[folded env_def]
  have h3: "0 < MAX_RETRIES CONFIG" and three: "MAX_RETRIES CONFIG = 3"
    by (simp_all add: CONFIG_def)
  have h4: "1 / 5 = base_temperature CONFIG (classify_task (str_lower (lib env)) (S ''run it''))"
    using classify_run_it
    by (simp add: env_def fixed_reply_env_def example_lib_def base_temperature_def CONFIG_def)
  have reply: "chat_completion env request w1 = (r, w2) \<Longrightarrow> r = Inr (Some (S ''hello''))"
    for request w1 r w2
    by (auto simp: env_def fixed_reply_env_def)
  have cleaned: "strip (strip_thinking_tags (content_or_empty (Some (S ''hello'')))) = S ''hello''"
    by (simp add: content_or_empty_def strip_thinking_tags_def sub_think_tail_def
        sub_think_blocks.simps strip_def is_space_def)
  from think_unparseable_replies[OF h1 h2 h3 h4]
  obtain dec calls w' content where
    run: "think CONFIG env (S ''run it'') None () = (Inr dec, calls, w')"
    and len: "int (length calls) = MAX_RETRIES CONFIG"
    and fields: "\<forall>k < length calls.
         req_temperature (fst (calls ! k))
           = (if k = 0 then 1 / 5 else max (1 / 10) (1 / 5 - (2 / 10) * real k))
         \<and> req_messages (fst (calls ! k))
           = [(S ''user'', JStr (S ''run it''))]
             @ (if k = 0 then [] else [(S ''user'', JStr corrective_instruction)])"
    and link: "\<forall>k < length calls. \<exists>w1 w2. chat_completion env (fst (calls ! k)) w1 = (snd (calls ! k), w2)"
    and last: "snd (last calls) = Inr content"
    and action: "dict_get dec (S ''action'') JNull = JStr (S ''none'')"
    and cont: "dict_get dec (S ''continue'') JNull = JBool False"
    and response: "dict_get dec (S ''response'') JNull =
        JStr (if strip (strip_thinking_tags (content_or_empty content)) \<noteq> []
              then strip (strip_thinking_tags (content_or_empty content))
              else S ''I processed your request but couldn'' @ [SQUOTE] @
                   S ''t format the response properly.'')"
    by (elim exE conjE) blast
  have len3: "length calls = 3" using len three by simp
  then have "calls \<noteq> []" by auto
  from last_conv_nth[OF this] have "last calls = calls ! 2" using len3 by simp
  with link len3 have "\<exists>w1 w2. chat_completion env (fst (calls ! 2)) w1 = (snd (last calls), w2)"
    by simp
  with reply last have "content = Some (S ''hello'')" by auto
  with response cleaned have resp: "dict_get dec (S ''response'') JNull = JStr (S ''hello'')"
    by simp
  have temps: "map (req_temperature \<circ> fst) calls = [1 / 5, 1 / 10, 1 / 10]"
  proof (rule nth_equalityI)
    show "length (map (req_temperature \<circ> fst) calls) = length [1 / 5, 1 / 10, 1 / 10 :: real]"
      using len3 by simp
  next
    fix i assume "i < length (map (req_temperature \<circ> fst) calls)"
    then have i: "i < 3" using len3 by simp
    then have "i = 0 \<or> i = 1 \<or> i = 2" by auto
    with fields len3 show "map (req_temperature \<circ> fst) calls ! i = [1 / 5, 1 / 10, 1 / 10] ! i"
      by auto
  qed
  have ex: "\<exists>dec calls w'.
        think CONFIG env (S ''run it'') None () = (Inr dec, calls, w')
        \<and> length calls = 3
        \<and> map (req_temperature \<circ> fst) calls = [1 / 5, 1 / 10, 1 / 10]
        \<and> dict_get dec (S ''action'') JNull = JStr (S ''none'')
        \<and> dict_get dec (S ''continue'') JNull = JBool False
        \<and> dict_get dec (S ''response'') JNull = JStr (S ''hello'')"
    using run len3 temps action cont resp
    by (intro exI[of _ dec] exI[of _ calls] exI[of _ w'] conjI) assumption+
  from h1 h2 h3 h4 ex show ?thesis
    unfolding env_def by (intro conjI) assumption+
qed

text \<open>The three base temperatures of the default configuration are above the floor.\<close>

lemma default_base_temperature_floor: "1 / 10 \<le> base_temperature CONFIG task_type"
  by (simp add: base_temperature_def CONFIG_def)

section \<open>Properties of reflection\<close>

lemma reflect_result_fields:
  assumes "reflect_result result raw = Inr d"
  shows "dict_has d (S ''action'') \<and> dict_has d (S ''parameters'')
         \<and> dict_has d (S ''response'') \<and> dict_has d (S ''continue'')"
proof -
  have s: "dict_has (summarize_raw raw) k" if "k \<in> set decision_fields" for k
    using that plain_decision_full[of "S ''Summarizing tool output.''"]
    by (simp add: summarize_raw_def Let_def list_all_iff)
  have summ: "dict_has (summarize_raw raw) (S ''action'') \<and> dict_has (summarize_raw raw) (S ''parameters'')
         \<and> dict_has (summarize_raw raw) (S ''response'') \<and> dict_has (summarize_raw raw) (S ''continue'')"
    by (intro conjI s) (simp_all add: decision_fields_def)
  show ?thesis
  proof (cases "d = summarize_raw raw")
    case True
    with summ show ?thesis by simp
  next
    case False
    with assms obtain r where r: "result = JObj r" "dict_has r (S ''response'')"
      "d = setdefault (S ''continue'') (JBool False)
             (setdefault (S ''parameters'') (JObj [])
               (setdefault (S ''action'') (JStr (S ''none'')) r))"
      by (cases result) (auto simp: reflect_result_def split: if_splits)
    then show ?thesis
      by (auto simp: dict_has_def map_of_setdefault)
  qed
qed

lemma local_summary_full: "list_all (dict_has (local_summary lb tr)) decision_fields"
  by (simp add: local_summary_def plain_decision_full)

lemma process_tool_result_fields:
  assumes "process_tool_result cfg env dec tr w = (Inr d, w')"
  shows "dict_has d (S ''action'') \<and> dict_has d (S ''parameters'')
         \<and> dict_has d (S ''response'') \<and> dict_has d (S ''continue'')"
proof -
  have loc: "dict_has (local_summary (lib env) tr) (S ''action'')
        \<and> dict_has (local_summary (lib env) tr) (S ''parameters'')
        \<and> dict_has (local_summary (lib env) tr) (S ''response'')
        \<and> dict_has (local_summary (lib env) tr) (S ''continue'')"
    using local_summary_full[of "lib env" tr] by (simp add: decision_fields_def)
  show ?thesis
  proof (cases "d = local_summary (lib env) tr")
    case True
    with loc show ?thesis by simp
  next
    case False
    with assms obtain result raw where "reflect_result result raw = Inr d"
      by (auto simp: process_tool_result_def Let_def split: option.splits prod.splits sum.splits)
    then show ?thesis by (rule reflect_result_fields)
  qed
qed

lemma process_tool_result_returns:
  assumes "dict_has dec (S ''action'')"
  shows "\<exists>d w'. process_tool_result cfg env dec tr w = (Inr d, w')"
  using assms
  by (auto simp: process_tool_result_def dict_has_def Let_def split: option.splits prod.splits sum.splits)

text \<open>
  Claim C6. Every dict returned by \<open>process_tool_result\<close> should hold all five fields.
  The code does not do this: on the extraction-success path it defaults \<open>action\<close>,
  \<open>parameters\<close> and \<open>continue\<close> but not \<open>thought\<close>. For the reply \<^verbatim>\<open>{"response": "done"}\<close>
  the returned dict has four fields and no \<open>thought\<close>.
\<close>

theorem reflect_omits_thought:
  \<open>fst (process_tool_result CONFIG
          (fixed_reply_env (loads_table [(S ''{"response": "done"}'', JObj [(S ''response'', JStr (S ''done''))])])
             (Inr (Some (S ''{"response": "done"}''))))
          [(S ''action'', JStr (S ''wait''))] (failed_result []) ())
     = Inr [(S ''response'', JStr (S ''done'')), (S ''action'', JStr (S ''none'')),
            (S ''parameters'', JObj []), (S ''continue'', JBool False)]
   \<and> \<not> dict_has [(S ''response'', JStr (S ''done'')), (S ''action'', JStr (S ''none'')),
                   (S ''parameters'', JObj []), (S ''continue'', JBool False)] (S ''thought'')\<close>
proof -
  define raw where \<open>raw = S ''{"response": "done"}''\<close>
  define parsed where "parsed = JObj [(S ''response'', JStr (S ''done''))]"
  define expected where "expected = [(S ''response'', JStr (S ''done'')), (S ''action'', JStr (S ''none'')),
            (S ''parameters'', JObj []), (S ''continue'', JBool False)]"
  define loads where "loads = loads_table [(raw, parsed)]"
  define env where "env = fixed_reply_env loads (Inr (Some raw))"
  have x: "extract_json loads raw = Inr parsed"
    by (simp add: loads_def raw_def extract_json_def strip_thinking_tags_def sub_think_tail_def
        sub_think_blocks.simps strip_def is_space_def try_loads_def loads_table_def)
  have cc: "chat_completion env request w = (Inr (Some raw), w)" for request w
    by (simp add: env_def fixed_reply_env_def)
  have sp: "build_system_prompt env w = (Inr [], w)" for w
    by (simp add: env_def fixed_reply_env_def)
  have lb: "json_loads (lib env) = loads"
    by (simp add: env_def fixed_reply_env_def example_lib_def)
  have rr: "reflect_result parsed raw = Inr expected"
    by (simp add: parsed_def expected_def reflect_result_def setdefault_def dict_has_def)
  have "fst (process_tool_result CONFIG env [(S ''action'', JStr (S ''wait''))] (failed_result []) ())
      = Inr expected"
    unfolding process_tool_result_def Let_def
    by (simp add: sp cc lb content_or_empty_def x rr)
  then show ?thesis
    unfolding env_def loads_def raw_def parsed_def expected_def by (simp add: dict_has_def)
qed

section \<open>Properties of the chain orchestrator\<close>

lemma chain_follow_state:
  "chain_context (iteration_state (chain_follow u sc st2 follow)) = chain_context st2"
  "dispatched (iteration_state (chain_follow u sc st2 follow)) = dispatched st2"
  "step (iteration_state (chain_follow u sc st2 follow)) = step st2"
  by (simp_all add: chain_follow_def Let_def)

lemma chain_iteration_idle:
  assumes "\<not> names_tool (dict_get (decision st) (S ''action'') (JStr (S ''none'')))"
  shows "chain_iteration env u st w = (Break st, w)"
  using assms by (simp add: chain_iteration_def Let_def)

lemma chain_iteration_acts:
  assumes "names_tool (dict_get (decision st) (S ''action'') (JStr (S ''none'')))"
    and "chain_iteration env u st w = (it, w')"
  shows "step (iteration_state it) = step st + 1
       \<and> dispatched (iteration_state it)
           = dispatched st @ [(dict_get (decision st) (S ''action'') (JStr (S ''none'')),
                               dict_get (decision st) (S ''parameters'') (JObj []))]
       \<and> length (chain_context (iteration_state it)) \<le> length (chain_context st) + 1"
  using assms
  by (auto simp: chain_iteration_def Let_def chain_follow_state
      split: prod.splits sum.splits)

lemma chain_iteration_inv:
  assumes "chain_inv st" and "chain_iteration env u st w = (it, w')"
  shows "chain_inv (iteration_state it) \<and> step (iteration_state it) \<le> step st + 1
         \<and> length (dispatched st) \<le> length (dispatched (iteration_state it))"
proof (cases "names_tool (dict_get (decision st) (S ''action'') (JStr (S ''none'')))")
  case True
  from chain_iteration_acts[OF True assms(2)] assms(1) show ?thesis
    by (auto simp: chain_inv_def)
next
  case False
  from chain_iteration_idle[OF False, of env u w] assms show ?thesis by auto
qed

lemma chain_loop_inv:
  "chain_inv st \<Longrightarrow> chain_loop cfg env u st w = ((e, st'), w') \<Longrightarrow>
     chain_inv st' \<and> step st' \<le> max (step st) (MAX_CHAIN_STEPS cfg)
     \<and> length (dispatched st) \<le> length (dispatched st')"
proof (induction cfg env u st w rule: chain_loop.induct)
  case (1 cfg env u st w)
  show ?case
  proof (cases "step st < MAX_CHAIN_STEPS cfg")
    case False
    with "1.prems"(2) have "st' = st"
      by (subst (asm) chain_loop.simps) simp
    with "1.prems"(1) show ?thesis by simp
  next
    case True
    obtain it w1 where it: "chain_iteration env u st w = (it, w1)"
      by (cases "chain_iteration env u st w")
    from chain_iteration_inv[OF "1.prems"(1) it]
    have inv: "chain_inv (iteration_state it)" and stp: "step (iteration_state it) \<le> step st + 1"
      and grow: "length (dispatched st) \<le> length (dispatched (iteration_state it))"
      by simp_all
    show ?thesis
    proof (cases it)
      case (Continue st1)
      with True it "1.prems"(2) have run: "chain_loop cfg env u st1 w1 = ((e, st'), w')"
        by (subst (asm) chain_loop.simps) simp
      from "1.IH"[OF True it[symmetric] Continue _ run] inv Continue
      have "chain_inv st' \<and> step st' \<le> max (step st1) (MAX_CHAIN_STEPS cfg)
            \<and> length (dispatched st1) \<le> length (dispatched st')"
        by simp
      with stp grow True Continue show ?thesis by auto
    next
      case (Break st1)
      with True it "1.prems"(2) have "st' = st1"
        by (subst (asm) chain_loop.simps) simp
      with inv stp grow True Break show ?thesis by auto
    next
      case (Raise x st1)
      with True it "1.prems"(2) have "st' = st1"
        by (subst (asm) chain_loop.simps) simp
      with inv stp grow True Raise show ?thesis by auto
    qed
  qed
qed

text \<open>
  Claim C1. Whatever the configuration, the collaborators and the decisions the model
  produces, \<open>execute_tool_chain\<close> ends (the loop is a recursion that terminates: the
  distance of \<open>step\<close> to \<open>MAX_CHAIN_STEPS\<close> shrinks with every pass), and at its end
  \<open>chain_context\<close> holds at most \<open>MAX_CHAIN_STEPS\<close> steps and at most \<open>MAX_CHAIN_STEPS\<close>
  dispatches have been made, whether it returns or an exception leaves it.
\<close>

theorem chain_steps_bounded:
  "\<exists>r st w'.
     execute_tool_chain cfg env user_text initial w = (r, st, w')
     \<and> length (chain_context st) \<le> nat (MAX_CHAIN_STEPS cfg)
     \<and> length (dispatched st) \<le> nat (MAX_CHAIN_STEPS cfg)
     \<and> (case r of Inl e \<Rightarrow> True | Inr (response, steps) \<Rightarrow> steps = chain_context st)"
proof -
  define st0 where "st0 = initial_state initial"
  obtain e st w1 where run: "chain_loop cfg env user_text st0 w = ((e, st), w1)"
    by (metis prod.collapse)
  have "chain_inv st0" by (simp add: chain_inv_def st0_def initial_state_def)
  from chain_loop_inv[OF this run]
  have inv: "chain_inv st" and stp: "step st \<le> max 0 (MAX_CHAIN_STEPS cfg)"
    by (simp_all add: st0_def initial_state_def)
  then have bound: "length (chain_context st) \<le> nat (MAX_CHAIN_STEPS cfg)"
    "length (dispatched st) \<le> nat (MAX_CHAIN_STEPS cfg)"
    by (auto simp: chain_inv_def)
  have unfolded: "execute_tool_chain cfg env user_text initial w =
      (case chain_loop cfg env user_text st0 w of
           ((Some e, st), w') \<Rightarrow> (Inl e, st, w')
         | ((None, st), w') \<Rightarrow>
             (Inr (final_response st, chain_context st), st,
              if status_msg st then env_delete_status env w' else w'))"
    unfolding execute_tool_chain_def st0_def by (rule refl)
  show ?thesis
  proof (cases e)
    case None
    with run bound show ?thesis
      unfolding unfolded by simp
  next
    case (Some x)
    with run bound show ?thesis
      unfolding unfolded by simp
  qed
qed


lemma map_of_dict_set: "map_of (dict_set k v d) k' = (if k' = k then Some v else map_of d k')"
  by (induction d) auto

lemma dict_get_dict_set_other: "k' \<noteq> k \<Longrightarrow> dict_get (dict_set k v d) k' x = dict_get d k' x"
  by (simp add: dict_get_def map_of_dict_set)

lemma chain_iteration_grows:
  assumes "chain_iteration env u st w = (it, w')"
  shows "length (dispatched st) \<le> length (dispatched (iteration_state it))"
proof (cases "names_tool (dict_get (decision st) (S ''action'') (JStr (S ''none'')))")
  case True
  from chain_iteration_acts[OF True assms] show ?thesis by simp
next
  case False
  from chain_iteration_idle[OF False, of env u w] assms show ?thesis by auto
qed

lemma chain_loop_grows:
  "chain_loop cfg env u st w = ((e, st'), w') \<Longrightarrow> length (dispatched st) \<le> length (dispatched st')"
proof (induction cfg env u st w rule: chain_loop.induct)
  case (1 cfg env u st w)
  show ?case
  proof (cases "step st < MAX_CHAIN_STEPS cfg")
    case False
    with "1.prems" have "st' = st"
      by (subst (asm) chain_loop.simps) simp
    then show ?thesis by simp
  next
    case True
    obtain it w1 where it: "chain_iteration env u st w = (it, w1)"
      by (cases "chain_iteration env u st w")
    note grow = chain_iteration_grows[OF it]
    show ?thesis
    proof (cases it)
      case (Continue st1)
      with True it "1.prems" have run: "chain_loop cfg env u st1 w1 = ((e, st'), w')"
        by (subst (asm) chain_loop.simps) simp
      from "1.IH"[OF True it[symmetric] Continue run] grow Continue show ?thesis by simp
    next
      case (Break st1)
      with True it "1.prems" have "st' = st1"
        by (subst (asm) chain_loop.simps) simp
      with grow Break show ?thesis by simp
    next
      case (Raise x st1)
      with True it "1.prems" have "st' = st1"
        by (subst (asm) chain_loop.simps) simp
      with grow Raise show ?thesis by simp
    qed
  qed
qed

lemma chain_loop_dispatches_first:
  assumes "step st < MAX_CHAIN_STEPS cfg"
    and "names_tool (dict_get (decision st) (S ''action'') (JStr (S ''none'')))"
  shows "length (dispatched st) + 1 \<le> length (dispatched (snd (fst (chain_loop cfg env u st w))))"
proof -
  obtain it w1 where it: "chain_iteration env u st w = (it, w1)"
    by (cases "chain_iteration env u st w")
  from chain_iteration_acts[OF assms(2) it]
  have len: "length (dispatched (iteration_state it)) = length (dispatched st) + 1" by simp
  show ?thesis
  proof (cases it)
    case (Continue st1)
    obtain e st' w' where run: "chain_loop cfg env u st1 w1 = ((e, st'), w')"
      by (metis prod.collapse)
    with assms(1) it Continue have "chain_loop cfg env u st w = ((e, st'), w')"
      by (subst chain_loop.simps) simp
    with chain_loop_grows[OF run] len Continue show ?thesis by simp
  next
    case (Break st1)
    with assms(1) it have "chain_loop cfg env u st w = ((None, st1), w1)"
      by (subst chain_loop.simps) simp
    with len Break show ?thesis by simp
  next
    case (Raise x st1)
    with assms(1) it have "chain_loop cfg env u st w = ((Some x, st1), w1)"
      by (subst chain_loop.simps) simp
    with len Raise show ?thesis by simp
  qed
qed

text \<open>
  Claim C5. Take a pass of the loop that dispatches a tool, stores the action and gets a
  reflected decision. A further dispatch follows if and only if the reflected decision's
  action is present (a true value: not missing, \<open>None\<close> or empty) and is not \<open>"none"\<close>, and
  the reflected decision's \<open>continue\<close> or the dispatched decision's \<open>continue\<close> is true, and
  the step counter is still below \<open>MAX_CHAIN_STEPS\<close>. The right-hand side does not mention
  the tool result, so its \<open>success\<close> flag has no part in the test.
\<close>

theorem chain_continuation:
  assumes bound: "step st < MAX_CHAIN_STEPS cfg"
    and acts: "names_tool (dict_get (decision st) (S ''action'') (JStr (S ''none'')))"
    and status: "env_status env (status_msg st) (step st + 1)
                   (dict_get (decision st) (S ''action'') (JStr (S ''none''))) w = (has_status, w1)"
    and dispatch: "env_dispatch_tool env (dict_get (decision st) (S ''action'') (JStr (S ''none'')))
                   (dict_get (decision st) (S ''parameters'') (JObj [])) w1 = (Inr tool_result, w2)"
    and stored: "env_store_action env (dict_get (decision st) (S ''action'') (JStr (S ''none'')))
                   (dict_get (decision st) (S ''parameters'') (JObj []))
                   (if stdout tool_result \<noteq> [] then stdout tool_result else stderr tool_result)
                   (success tool_result)
                   (dict_get (decision st) (S ''thought'') (JStr []))
                   (dict_get (decision st) (S ''response'') (JStr [])) w2 = (Inr u, w3)"
    and reflected: "env_process_tool_result env (decision st) tool_result
                   (chain_deliver env (decision st) tool_result w3) = (Inr follow, w6)"
  shows "length (dispatched st) + 1 < length (dispatched (snd (fst (chain_loop cfg env user_text st w))))
         \<longleftrightarrow>
         (truthy (dict_get follow (S ''action'') (JStr (S ''none'')))
          \<and> dict_get follow (S ''action'') (JStr (S ''none'')) \<noteq> JStr (S ''none'')
          \<and> (truthy (dict_get follow (S ''continue'') (JBool False))
              \<or> truthy (dict_get (decision st) (S ''continue'') (JBool False)))
          \<and> step st + 1 < MAX_CHAIN_STEPS cfg)"
proof -
  define action where "action = dict_get (decision st) (S ''action'') (JStr (S ''none''))"
  define parameters where "parameters = dict_get (decision st) (S ''parameters'') (JObj [])"
  define sc where "sc = dict_get (decision st) (S ''continue'') (JBool False)"
  define st2 where "st2 = st\<lparr>step := step st + 1, status_msg := has_status,
      dispatched := dispatched st @ [(action, parameters)],
      chain_context := chain_context st @
        [\<lparr>cs_step = step st + 1, cs_action = action, cs_parameters = parameters,
          cs_success = success tool_result,
          cs_output = take 500 (if stdout tool_result \<noteq> [] then stdout tool_result
                                else stderr tool_result)\<rparr>]\<rparr>"
  have it: "chain_iteration env user_text st w = (chain_follow user_text sc st2 follow, w6)"
    unfolding chain_iteration_def Let_def
    using acts status dispatch stored reflected
    by (simp add: action_def parameters_def sc_def st2_def)
  have len2: "length (dispatched st2) = length (dispatched st) + 1"
    by (simp add: st2_def)
  have wants: "wants_next follow sc \<longleftrightarrow>
      truthy (dict_get follow (S ''action'') (JStr (S ''none'')))
      \<and> dict_get follow (S ''action'') (JStr (S ''none'')) \<noteq> JStr (S ''none'')
      \<and> (truthy (dict_get follow (S ''continue'') (JBool False)) \<or> truthy sc)"
    by (simp add: wants_next_def names_tool_def Let_def)
  show ?thesis
  proof (cases "wants_next follow sc")
    case False
    then have "chain_follow user_text sc st2 follow
        = Break (st2\<lparr>final_response := dict_get follow (S ''response'') (final_response st2)\<rparr>)"
      by (simp add: chain_follow_def Let_def)
    with it bound have "chain_loop cfg env user_text st w
        = ((None, st2\<lparr>final_response := dict_get follow (S ''response'') (final_response st2)\<rparr>), w6)"
      by (subst chain_loop.simps) simp
    then have lhs: "length (dispatched (snd (fst (chain_loop cfg env user_text st w))))
        = length (dispatched st) + 1"
      using len2 by simp
    from False wants have rhs: "\<not> (truthy (dict_get follow (S ''action'') (JStr (S ''none'')))
          \<and> dict_get follow (S ''action'') (JStr (S ''none'')) \<noteq> JStr (S ''none'')
          \<and> (truthy (dict_get follow (S ''continue'') (JBool False))
              \<or> truthy (dict_get (decision st) (S ''continue'') (JBool False))))"
      unfolding sc_def by blast
    from lhs rhs show ?thesis by linarith
  next
    case True
    define st3 where "st3 = st2\<lparr>final_response := dict_get follow (S ''response'') (final_response st2),
        decision := dict_set (S ''_original_message'') (JStr user_text) follow\<rparr>"
    from True have "chain_follow user_text sc st2 follow = Continue st3"
      by (simp add: chain_follow_def Let_def st3_def)
    with it bound have unfold: "chain_loop cfg env user_text st w = chain_loop cfg env user_text st3 w6"
      by (subst chain_loop.simps) simp
    have step3: "step st3 = step st + 1" and len3: "length (dispatched st3) = length (dispatched st) + 1"
      by (simp_all add: st3_def st2_def)
    have act3: "dict_get (decision st3) (S ''action'') (JStr (S ''none''))
        = dict_get follow (S ''action'') (JStr (S ''none''))"
      by (simp add: st3_def dict_get_dict_set_other)
    show ?thesis
    proof (cases "step st + 1 < MAX_CHAIN_STEPS cfg")
      case more: True
      from True have "names_tool (dict_get (decision st3) (S ''action'') (JStr (S ''none'')))"
        unfolding act3 by (simp add: wants_next_def Let_def)
      from chain_loop_dispatches_first[OF _ this, of cfg env user_text w6] more step3
      have "length (dispatched st3) + 1
          \<le> length (dispatched (snd (fst (chain_loop cfg env user_text st3 w6))))"
        by simp
      with unfold len3 have lhs: "length (dispatched st) + 1
          < length (dispatched (snd (fst (chain_loop cfg env user_text st w))))"
        by simp
      from True wants have rhs: "truthy (dict_get follow (S ''action'') (JStr (S ''none'')))
          \<and> dict_get follow (S ''action'') (JStr (S ''none'')) \<noteq> JStr (S ''none'')
          \<and> (truthy (dict_get follow (S ''continue'') (JBool False))
              \<or> truthy (dict_get (decision st) (S ''continue'') (JBool False)))"
        unfolding sc_def by blast
      from lhs rhs more show ?thesis by blast
    next
      case stop: False
      then have "chain_loop cfg env user_text st3 w6 = ((None, st3), w6)"
        using step3 by (subst chain_loop.simps) simp
      with unfold len3 have "length (dispatched (snd (fst (chain_loop cfg env user_text st w))))
        = length (dispatched st) + 1"
        by simp
      with stop show ?thesis by linarith
    qed
  qed
qed


theorem chain_continuation_witness:
  "step (initial_state [(S ''action'', JStr (S ''wait''))]) < MAX_CHAIN_STEPS CONFIG
   \<and> names_tool (dict_get (decision (initial_state [(S ''action'', JStr (S ''wait''))]))
         (S ''action'') (JStr (S ''none'')))
   \<and> env_dispatch_tool looping_env (JStr (S ''wait'')) (JObj []) ()
       = (Inr (failed_result (S ''boom'')), ())
   \<and> success (failed_result (S ''boom'')) = False
   \<and> env_process_tool_result looping_env
         (decision (initial_state [(S ''action'', JStr (S ''wait''))])) (failed_result (S ''boom'')) ()
       = (Inr [(S ''action'', JStr (S ''wait'')), (S ''continue'', JBool True),
               (S ''response'', JStr (S ''again''))], ())
   \<and> length (dispatched (initial_state [(S ''action'', JStr (S ''wait''))])) + 1
       < length (dispatched (snd (fst (chain_loop CONFIG looping_env (S ''go'')
            (initial_state [(S ''action'', JStr (S ''wait''))]) ()))))"
proof -
  define st where "st = initial_state [(S ''action'', JStr (S ''wait''))]"
  define follow where "follow = [(S ''action'', JStr (S ''wait'')), (S ''continue'', JBool True),
               (S ''response'', JStr (S ''again''))]"
  have action: "dict_get (decision st) (S ''action'') (JStr (S ''none'')) = JStr (S ''wait'')"
    and parameters: "dict_get (decision st) (S ''parameters'') (JObj []) = JObj []"
    by (simp_all add: st_def initial_state_def dict_get_def)
  have h1: "step st < MAX_CHAIN_STEPS CONFIG"
    by (simp add: st_def initial_state_def CONFIG_def)
  have h2: "names_tool (dict_get (decision st) (S ''action'') (JStr (S ''none'')))"
    unfolding action by (simp add: names_tool_def)
  have h3: "env_status looping_env (status_msg st) (step st + 1)
      (dict_get (decision st) (S ''action'') (JStr (S ''none''))) () = (True, ())"
    by (simp add: looping_env_def)
  have d: "env_dispatch_tool looping_env a p () = (Inr (failed_result (S ''boom'')), ())" for a p
    by (simp add: looping_env_def)
  have h5: "env_store_action looping_env a p r ok t resp () = (Inr (), ())" for a p r ok t resp
    by (simp add: looping_env_def)
  have r: "env_process_tool_result looping_env cur tr x = (Inr follow, ())" for cur tr x
    by (simp add: looping_env_def follow_def)
  have rhs: "truthy (dict_get follow (S ''action'') (JStr (S ''none'')))
      \<and> dict_get follow (S ''action'') (JStr (S ''none'')) \<noteq> JStr (S ''none'')
      \<and> (truthy (dict_get follow (S ''continue'') (JBool False))
          \<or> truthy (dict_get (decision st) (S ''continue'') (JBool False)))
      \<and> step st + 1 < MAX_CHAIN_STEPS CONFIG"
    by (simp add: follow_def dict_get_def st_def initial_state_def CONFIG_def)
  from chain_continuation[OF h1 h2 h3 d h5 r, of "S ''go''"] rhs
  have more: "length (dispatched st) + 1
      < length (dispatched (snd (fst (chain_loop CONFIG looping_env (S ''go'') st ()))))"
    by blast
  have f: "success (failed_result (S ''boom'')) = False"
    by (simp add: failed_result_def)
  from h1 h2 d[of "JStr (S ''wait'')" "JObj []"] f r[of "decision st" "failed_result (S ''boom'')" "()"] more
  show ?thesis
    unfolding st_def follow_def by (intro conjI) assumption+
qed

end
